theory Spec2Isabelle
  imports Main "HOL-Library.Char_ord" "HOL-Library.List_Lexorder"
begin

section \<open>Types, type names and build configuration\<close>

text \<open>
  The library is a set of C++ templates. A template argument is a C++ type; the types that occur
  are user classes (interfaces and their implementations) and four families the headers build
  from them:
  \<^item> \<open>FactoryT I\<close> is \<^verbatim>\<open>Factory<I>\<close>;
  \<^item> \<open>RegistryT I\<close> is \<^verbatim>\<open>std::map<TypeId, std::function<std::shared_ptr<I>()>>\<close>
    (the private typedef \<^verbatim>\<open>Factory<I>::Registry\<close>);
  \<^item> \<open>FactoryMixinT T I\<close> is \<^verbatim>\<open>FactoryMixin<T, I>\<close>;
  \<^item> \<open>TypeIdT\<close> is \<^verbatim>\<open>FactoryBase::TypeId\<close>, that is \<^verbatim>\<open>std::string\<close>.

  A user class is given by a label that identifies it in the program. Two values of \<open>ctype\<close>
  are the same C++ type exactly when they are equal.
\<close>

datatype ctype =
    Class string
  | FactoryT ctype
  | RegistryT ctype
  | FactoryMixinT ctype ctype
  | TypeIdT

text \<open>
  \<^verbatim>\<open>typeid(T).name()\<close> is supplied by the toolchain, not by the repository: it is a parameter
  \<open>nm\<close> of every operation that reaches \<^verbatim>\<open>PerTypeStorage::value\<close>. The other parameter is
  the build configuration: \<open>ndebug\<close> is true when \<^verbatim>\<open>NDEBUG\<close> is defined, which turns
  \<^verbatim>\<open>assert\<close> into nothing.
\<close>

type_synonym type_names = "ctype \<Rightarrow> string"

type_synonym TypeId = string

section \<open>Errors\<close>

text \<open>
  \<open>RuntimeError m\<close> is \<^verbatim>\<open>std::runtime_error(m)\<close>; \<open>BadFunctionCall\<close> is what calling an
  empty \<^verbatim>\<open>std::function\<close> throws; \<open>UserException m\<close> is an exception thrown by code the
  application supplies. These three can be caught by the caller. \<open>AssertionFailed\<close> is a failed
  \<^verbatim>\<open>assert\<close>, which aborts the process. \<open>UndefinedBehaviour\<close> marks the use of a storage cell
  through a pointer of the wrong type (the \<^verbatim>\<open>reinterpret_cast\<close> in
  \<^verbatim>\<open>PerTypeStorage::value\<close>) or through an address that holds no cell.
\<close>

datatype error =
    RuntimeError string
  | BadFunctionCall
  | UserException string
  | AssertionFailed
  | UndefinedBehaviour

fun fatal :: "error \<Rightarrow> bool" where
  "fatal AssertionFailed = True"
| "fatal UndefinedBehaviour = True"
| "fatal _ = False"

section \<open>std::map\<close>

text \<open>
  A \<^verbatim>\<open>std::map<K, V>\<close> is the list of its entries in iteration order, that is in increasing
  key order. For \<^verbatim>\<open>std::string\<close> keys the order is the lexicographic order on bytes, which is
  the order of \<open>string\<close> here.
  \<open>map_find\<close> is \<^verbatim>\<open>m.find(k)\<close> (\<open>None\<close> for \<^verbatim>\<open>m.end()\<close>), \<open>map_count\<close> is
  \<^verbatim>\<open>m.count(k)\<close>, \<open>map_assign m k v\<close> is the map after \<^verbatim>\<open>m[k] = v\<close>, \<open>map_size\<close> is
  \<^verbatim>\<open>m.size()\<close>.
\<close>

type_synonym ('k, 'v) std_map = "('k \<times> 'v) list"

fun map_find :: "('k, 'v) std_map \<Rightarrow> 'k \<Rightarrow> 'v option" where
  "map_find [] k = None"
| "map_find (e # m) k = (if fst e = k then Some (snd e) else map_find m k)"

definition map_count :: "('k, 'v) std_map \<Rightarrow> 'k \<Rightarrow> nat" where
  "map_count m k = (case map_find m k of None \<Rightarrow> 0 | Some _ \<Rightarrow> 1)"

fun map_assign :: "('k::linorder, 'v) std_map \<Rightarrow> 'k \<Rightarrow> 'v \<Rightarrow> ('k, 'v) std_map" where
  "map_assign [] k v = [(k, v)]"
| "map_assign (e # m) k v =
     (if fst e = k then (k, v) # m
      else if fst e < k then e # map_assign m k v
      else (k, v) # e # m)"

definition map_size :: "('k, 'v) std_map \<Rightarrow> nat" where
  "map_size m = length m"

section \<open>Objects, generators and the program state\<close>

text \<open>
  What the library can observe of an object is its dynamic class, through
  \<^verbatim>\<open>dynamic_cast\<close> and the virtual \<^verbatim>\<open>typeId()\<close>:
  \<^item> \<open>MixinClass T I\<close>: the class \<open>T\<close>, derived from \<^verbatim>\<open>FactoryMixin<T, I>\<close> and inheriting
    its \<^verbatim>\<open>typeId()\<close>, as the classes A and B of the example program;
  \<^item> \<open>GetterClass I x\<close>: a class that derives from \<^verbatim>\<open>TypeIdGetter<I>\<close> itself and whose
    \<^verbatim>\<open>typeId()\<close> returns \<open>x\<close>;
  \<^item> \<open>PlainClass\<close>: a class with no \<^verbatim>\<open>TypeIdGetter\<close> base.

  An \<open>InterfacePtr\<close> is a \<^verbatim>\<open>std::shared_ptr\<close>: null, or the identity of an object (the number
  of objects constructed before it) with its dynamic class.
\<close>

datatype dyn_class =
    MixinClass ctype ctype
  | GetterClass ctype TypeId
  | PlainClass

datatype InterfacePtr =
    Null
  | Ptr nat dyn_class

text \<open>
  A \<open>Generator\<close> is a \<^verbatim>\<open>std::function<InterfacePtr()>\<close>: empty, the function pointer
  \<^verbatim>\<open>&FactoryMixin<T, I>::newInstance\<close> that a Registrator stores, or a function of the
  application. The latter sees and returns the number of objects constructed so far; it may
  throw.
\<close>

datatype Generator =
    EmptyFunction
  | MixinNewInstance ctype ctype
  | UserFunction "nat \<Rightarrow> (error + InterfacePtr) \<times> nat"

text \<open>
  A storage cell is the object behind one \<^verbatim>\<open>void*\<close> of \<^verbatim>\<open>PerTypeStorage::m_data\<close>. The
  library instantiates \<^verbatim>\<open>value\<close> with two value types: a registry table and a type
  identifier.
\<close>

datatype cell =
    RegistryCell "(TypeId, Generator) std_map"
  | TypeIdCell TypeId

text \<open>
  The state of the process: the static pointer \<^verbatim>\<open>m_data\<close> (\<open>None\<close> when null), the cells
  allocated by \<^verbatim>\<open>new ValueType\<close> (the address of a cell is its index) and the number of
  objects the generators have constructed.
\<close>

record state =
  m_data :: "(string, nat) std_map option"
  heap :: "cell list"
  objects :: nat

definition init :: state where
  "init = \<lparr>m_data = None, heap = [], objects = 0\<rparr>"

section \<open>PerTypeStorage\<close>

definition data :: "state \<Rightarrow> (string, nat) std_map \<times> state" where
  "data s =
     (case m_data s of
        None \<Rightarrow> ([], s\<lparr>m_data := Some []\<rparr>)
      | Some d \<Rightarrow> (d, s))"

text \<open>
  The private overload \<^verbatim>\<open>value<ValueType>(key)\<close>. \<open>dflt\<close> is the default-constructed
  \<^verbatim>\<open>ValueType\<close>; the result is the address of the cell, the reference the C++ returns.
\<close>

definition value_key :: "cell \<Rightarrow> string \<Rightarrow> state \<Rightarrow> nat \<times> state" where
  "value_key dflt key s =
     (let (d, s1) = data s in
      case map_find d key of
        None \<Rightarrow>
          (let result = length (heap s1) in
           (result, s1\<lparr>heap := heap s1 @ [dflt], m_data := Some (map_assign d key result)\<rparr>))
      | Some a \<Rightarrow> (a, s1))"

definition storage_key :: "type_names \<Rightarrow> ctype \<Rightarrow> ctype \<Rightarrow> string" where
  "storage_key nm ClassType ValueType = nm ClassType @ '' / '' @ nm ValueType"

text \<open>The public \<^verbatim>\<open>value<ClassType, ValueType>()\<close>.\<close>

definition value_cell :: "type_names \<Rightarrow> ctype \<Rightarrow> ctype \<Rightarrow> cell \<Rightarrow> state \<Rightarrow> nat \<times> state" where
  "value_cell nm ClassType ValueType dflt s = value_key dflt (storage_key nm ClassType ValueType) s"

text \<open>
  Using the returned reference as a \<^verbatim>\<open>Registry&\<close> or as a \<^verbatim>\<open>TypeId&\<close>. The tables of two
  interfaces have the same representation, so a table read through the table type of another
  interface is that table; a table read as a string, or a string as a table, is undefined.
\<close>

definition deref :: "state \<Rightarrow> nat \<Rightarrow> cell option" where
  "deref s a = (if a < length (heap s) then Some (heap s ! a) else None)"

definition as_Registry :: "state \<Rightarrow> nat \<Rightarrow> error + (TypeId, Generator) std_map" where
  "as_Registry s a =
     (case deref s a of
        Some (RegistryCell r) \<Rightarrow> Inr r
      | _ \<Rightarrow> Inl UndefinedBehaviour)"

definition as_TypeId :: "state \<Rightarrow> nat \<Rightarrow> error + TypeId" where
  "as_TypeId s a =
     (case deref s a of
        Some (TypeIdCell x) \<Rightarrow> Inr x
      | _ \<Rightarrow> Inl UndefinedBehaviour)"

definition store :: "nat \<Rightarrow> cell \<Rightarrow> state \<Rightarrow> state" where
  "store a c s = s\<lparr>heap := (heap s)[a := c]\<rparr>"

section \<open>Factory\<close>

definition registry_key :: "type_names \<Rightarrow> ctype \<Rightarrow> string" where
  "registry_key nm I = storage_key nm (FactoryT I) (RegistryT I)"

definition registry :: "type_names \<Rightarrow> ctype \<Rightarrow> state \<Rightarrow> nat \<times> state" where
  "registry nm I s = value_cell nm (FactoryT I) (RegistryT I) (RegistryCell []) s"

definition registerType ::
  "type_names \<Rightarrow> bool \<Rightarrow> ctype \<Rightarrow> TypeId \<Rightarrow> Generator \<Rightarrow> state \<Rightarrow> (error + unit) \<times> state" where
  "registerType nm ndebug I typeId generator s =
     (let (a, s1) = registry nm I s in
      case as_Registry s1 a of
        Inl e \<Rightarrow> (Inl e, s1)
      | Inr r \<Rightarrow>
          if \<not> ndebug \<and> map_count r typeId \<noteq> 0 then (Inl AssertionFailed, s1)
          else (Inr (), store a (RegistryCell (map_assign r typeId generator)) s1))"

text \<open>Calling a generator. The constructor of an implementation is taken to return.\<close>

fun invoke :: "Generator \<Rightarrow> state \<Rightarrow> (error + InterfacePtr) \<times> state" where
  "invoke EmptyFunction s = (Inl BadFunctionCall, s)"
| "invoke (MixinNewInstance T I) s =
     (Inr (Ptr (objects s) (MixinClass T I)), s\<lparr>objects := Suc (objects s)\<rparr>)"
| "invoke (UserFunction f) s = (fst (f (objects s)), s\<lparr>objects := snd (f (objects s))\<rparr>)"

definition not_found :: "TypeId \<Rightarrow> error" where
  "not_found typeId = RuntimeError (''Failed to find type '' @ [CHR 0x27] @ typeId @ [CHR 0x27] @ '' in registry'')"

definition newInstance ::
  "type_names \<Rightarrow> ctype \<Rightarrow> TypeId \<Rightarrow> state \<Rightarrow> (error + InterfacePtr) \<times> state" where
  "newInstance nm I typeId s =
     (let (a, s1) = registry nm I s in
      case as_Registry s1 a of
        Inl e \<Rightarrow> (Inl e, s1)
      | Inr r \<Rightarrow>
          (case map_find r typeId of
             None \<Rightarrow> (Inl (not_found typeId), s1)
           | Some g \<Rightarrow> invoke g s1))"

text \<open>
  \<^verbatim>\<open>std::transform\<close> over the table into a vector of \<^verbatim>\<open>r.size()\<close> empty strings: the \<open>i\<close>-th
  entry's key is written at position \<open>i\<close>.
\<close>

fun transform :: "('a \<Rightarrow> 'b) \<Rightarrow> 'a list \<Rightarrow> 'b list \<Rightarrow> nat \<Rightarrow> 'b list" where
  "transform f [] result i = result"
| "transform f (v # vs) result i = transform f vs (result[i := f v]) (Suc i)"

definition registeredTypes ::
  "type_names \<Rightarrow> ctype \<Rightarrow> state \<Rightarrow> (error + TypeId list) \<times> state" where
  "registeredTypes nm I s =
     (let (a, s1) = registry nm I s in
      case as_Registry s1 a of
        Inl e \<Rightarrow> (Inl e, s1)
      | Inr r \<Rightarrow> (Inr (transform fst r (replicate (map_size r) []) 0), s1))"

definition isTypeRegistered ::
  "type_names \<Rightarrow> ctype \<Rightarrow> TypeId \<Rightarrow> state \<Rightarrow> (error + bool) \<times> state" where
  "isTypeRegistered nm I typeId s =
     (let (a, s1) = registry nm I s in
      case as_Registry s1 a of
        Inl e \<Rightarrow> (Inl e, s1)
      | Inr r \<Rightarrow> (Inr (map_count r typeId > 0), s1))"

section \<open>FactoryMixin and TypeIdGetter\<close>

definition typeid_key :: "type_names \<Rightarrow> ctype \<Rightarrow> ctype \<Rightarrow> string" where
  "typeid_key nm T I = storage_key nm (FactoryMixinT T I) TypeIdT"

definition Registrator ::
  "type_names \<Rightarrow> bool \<Rightarrow> ctype \<Rightarrow> ctype \<Rightarrow> TypeId \<Rightarrow> state \<Rightarrow> (error + unit) \<times> state" where
  "Registrator nm ndebug T I typeId s =
     (case registerType nm ndebug I typeId (MixinNewInstance T I) s of
        (Inl e, s1) \<Rightarrow> (Inl e, s1)
      | (Inr _, s1) \<Rightarrow>
          (let (a, s2) = value_cell nm (FactoryMixinT T I) TypeIdT (TypeIdCell []) s1 in
           case as_TypeId s2 a of
             Inl e \<Rightarrow> (Inl e, s2)
           | Inr _ \<Rightarrow> (Inr (), store a (TypeIdCell typeId) s2)))"

definition staticTypeId ::
  "type_names \<Rightarrow> ctype \<Rightarrow> ctype \<Rightarrow> state \<Rightarrow> (error + TypeId) \<times> state" where
  "staticTypeId nm T I s =
     (let (a, s1) = value_cell nm (FactoryMixinT T I) TypeIdT (TypeIdCell []) s in
      (as_TypeId s1 a, s1))"

text \<open>
  The class hierarchy as far as \<^verbatim>\<open>TypeIdGetter\<close> is concerned: \<open>has_TypeIdGetter c I\<close>
  holds when the class \<open>c\<close> has the base \<^verbatim>\<open>TypeIdGetter<I>\<close>.
\<close>

fun has_TypeIdGetter :: "dyn_class \<Rightarrow> ctype \<Rightarrow> bool" where
  "has_TypeIdGetter (MixinClass T J) I = (J = I)"
| "has_TypeIdGetter (GetterClass J x) I = (J = I)"
| "has_TypeIdGetter PlainClass I = False"

text \<open>
  \<^verbatim>\<open>dynamic_cast<const TypeIdGetter<I>*>(o.get())\<close>: the object, by its dynamic class, when
  that class has the base \<^verbatim>\<open>TypeIdGetter<I>\<close>; \<open>None\<close> is the null pointer that the cast
  gives otherwise, and for a null \<open>o\<close>.
\<close>

fun dynamic_cast :: "ctype \<Rightarrow> InterfacePtr \<Rightarrow> dyn_class option" where
  "dynamic_cast I Null = None"
| "dynamic_cast I (Ptr n c) = (if has_TypeIdGetter c I then Some c else None)"

text \<open>The virtual \<^verbatim>\<open>typeId()\<close> of an object of the given dynamic class.\<close>

fun virtual_typeId :: "type_names \<Rightarrow> dyn_class \<Rightarrow> state \<Rightarrow> (error + TypeId) \<times> state" where
  "virtual_typeId nm (MixinClass T I) s = staticTypeId nm T I s"
| "virtual_typeId nm (GetterClass I x) s = (Inr x, s)"
| "virtual_typeId nm PlainClass s = (Inr [], s)"

text \<open>The static \<^verbatim>\<open>TypeIdGetter<I>::typeId(o)\<close>.\<close>

definition typeId :: "type_names \<Rightarrow> ctype \<Rightarrow> InterfacePtr \<Rightarrow> state \<Rightarrow> (error + TypeId) \<times> state" where
  "typeId nm I o' s =
     (case dynamic_cast I o' of
        Some p \<Rightarrow> virtual_typeId nm p s
      | None \<Rightarrow> (Inr [], s))"

section \<open>Runs of a program\<close>

text \<open>
  A program uses the library through a sequence of calls. Each call returns normally or with an
  error; after an error the caller can catch, the program goes on, and at an assertion failure
  or an undefined access the run ends with the state it has reached.
\<close>

datatype op =
    RegisterType ctype TypeId Generator
  | NewInstance ctype TypeId
  | RegisteredTypes ctype
  | IsTypeRegistered ctype TypeId
  | MkRegistrator ctype ctype TypeId
  | StaticTypeId ctype ctype
  | GetTypeId ctype InterfacePtr

datatype outcome =
    Done
  | Instance InterfacePtr
  | Ids "TypeId list"
  | Flag bool
  | Id TypeId

definition returning :: "('a \<Rightarrow> outcome) \<Rightarrow> (error + 'a) \<times> state \<Rightarrow> (error + outcome) \<times> state" where
  "returning f rs = (map_sum id f (fst rs), snd rs)"

fun step :: "type_names \<Rightarrow> bool \<Rightarrow> op \<Rightarrow> state \<Rightarrow> (error + outcome) \<times> state" where
  "step nm ndebug (RegisterType I x g) s = returning (\<lambda>_. Done) (registerType nm ndebug I x g s)"
| "step nm ndebug (NewInstance I x) s = returning Instance (newInstance nm I x s)"
| "step nm ndebug (RegisteredTypes I) s = returning Ids (registeredTypes nm I s)"
| "step nm ndebug (IsTypeRegistered I x) s = returning Flag (isTypeRegistered nm I x s)"
| "step nm ndebug (MkRegistrator T I x) s = returning (\<lambda>_. Done) (Registrator nm ndebug T I x s)"
| "step nm ndebug (StaticTypeId T I) s = returning Id (staticTypeId nm T I s)"
| "step nm ndebug (GetTypeId I p) s = returning Id (typeId nm I p s)"

definition ends_run :: "error + outcome \<Rightarrow> bool" where
  "ends_run r = (case r of Inl e \<Rightarrow> fatal e | Inr _ \<Rightarrow> False)"

fun run :: "type_names \<Rightarrow> bool \<Rightarrow> op list \<Rightarrow> state \<Rightarrow> state" where
  "run nm ndebug [] s = s"
| "run nm ndebug (c # cs) s =
     (if ends_run (fst (step nm ndebug c s)) then snd (step nm ndebug c s)
      else run nm ndebug cs (snd (step nm ndebug c s)))"

text \<open>
  What a call can do to the storage: \<open>op_cells nm c\<close> lists the cells the call \<open>c\<close> asks
  \<^verbatim>\<open>PerTypeStorage::value\<close> for, each by its key and its default-constructed content, and
  \<open>registers c\<close> is the table entry the call assigns.
\<close>

fun op_cells :: "type_names \<Rightarrow> op \<Rightarrow> (string \<times> cell) list" where
  "op_cells nm (RegisterType I x g) = [(registry_key nm I, RegistryCell [])]"
| "op_cells nm (NewInstance I x) = [(registry_key nm I, RegistryCell [])]"
| "op_cells nm (RegisteredTypes I) = [(registry_key nm I, RegistryCell [])]"
| "op_cells nm (IsTypeRegistered I x) = [(registry_key nm I, RegistryCell [])]"
| "op_cells nm (MkRegistrator T I x) =
     [(registry_key nm I, RegistryCell []), (typeid_key nm T I, TypeIdCell [])]"
| "op_cells nm (StaticTypeId T I) = [(typeid_key nm T I, TypeIdCell [])]"
| "op_cells nm (GetTypeId I p) =
     (case dynamic_cast I p of
        Some (MixinClass T J) \<Rightarrow> [(typeid_key nm T J, TypeIdCell [])]
      | _ \<Rightarrow> [])"

fun registers :: "op \<Rightarrow> (ctype \<times> TypeId \<times> Generator) option" where
  "registers (RegisterType I x g) = Some (I, x, g)"
| "registers (MkRegistrator T I x) = Some (I, x, MixinNewInstance T I)"
| "registers _ = None"

section \<open>Observations of a state\<close>

text \<open>
  \<open>lookup s key\<close> is the address of the cell stored under \<open>key\<close>, if there is one; \<open>keys\<close>
  lists the keys that have a cell. \<open>table nm I s\<close> is the table a member of \<^verbatim>\<open>Factory<I>\<close>
  works on, the one it gets from \<^verbatim>\<open>registry()\<close>. \<open>registered nm I x s\<close> holds when the
  state has a table for \<open>I\<close> with an entry for \<open>x\<close>.
\<close>

definition lookup :: "state \<Rightarrow> string \<Rightarrow> nat option" where
  "lookup s key = (case m_data s of None \<Rightarrow> None | Some d \<Rightarrow> map_find d key)"

definition keys :: "state \<Rightarrow> string list" where
  "keys s = (case m_data s of None \<Rightarrow> [] | Some d \<Rightarrow> map fst d)"

definition table :: "type_names \<Rightarrow> ctype \<Rightarrow> state \<Rightarrow> error + (TypeId, Generator) std_map" where
  "table nm I s = (let (a, s1) = registry nm I s in as_Registry s1 a)"

definition registered :: "type_names \<Rightarrow> ctype \<Rightarrow> TypeId \<Rightarrow> state \<Rightarrow> bool" where
  "registered nm I x s =
     (case lookup s (registry_key nm I) of
        None \<Rightarrow> False
      | Some a \<Rightarrow>
          (case deref s a of
             Some (RegistryCell r) \<Rightarrow> map_count r x > 0
           | _ \<Rightarrow> False))"

text \<open>
  The states the library produces: the key map is in key order, every cell belongs to exactly
  one key, and there is no cell before the key map exists.
\<close>

definition wf :: "state \<Rightarrow> bool" where
  "wf s =
     (case m_data s of
        None \<Rightarrow> heap s = []
      | Some d \<Rightarrow>
          sorted_wrt (<) (map fst d) \<and> distinct (map snd d) \<and>
          set (map snd d) = {..<length (heap s)})"

text \<open>
  \<open>unset k s\<close>: in the well-formed state \<open>s\<close> the identifier cell under the key \<open>k\<close> does not
  exist yet or still holds its default-constructed value. \<open>leaves_unset nm k c\<close>: the call
  \<open>c\<close> is not the construction of a Registrator whose identifier cell is under \<open>k\<close>, and it
  does not ask for a table under \<open>k\<close>.
\<close>

definition unset :: "string \<Rightarrow> state \<Rightarrow> bool" where
  "unset k s =
     (wf s \<and> (case lookup s k of None \<Rightarrow> True | Some a \<Rightarrow> deref s a = Some (TypeIdCell [])))"

fun Registrator_key :: "type_names \<Rightarrow> op \<Rightarrow> string option" where
  "Registrator_key nm (MkRegistrator T I x) = Some (typeid_key nm T I)"
| "Registrator_key nm _ = None"

definition leaves_unset :: "type_names \<Rightarrow> string \<Rightarrow> op \<Rightarrow> bool" where
  "leaves_unset nm k c =
     (Registrator_key nm c \<noteq> Some k \<and> (k, RegistryCell []) \<notin> set (op_cells nm c))"

text \<open>
  \<open>intact nm T I x s\<close>: in the well-formed state \<open>s\<close> the table of \<open>I\<close> maps \<open>x\<close> to the
  generator of \<open>T\<close>, and the identifier cell of \<open>T\<close> holds \<open>x\<close>. \<open>keeps nm ndebug T I x c\<close>:
  the call \<open>c\<close> does not construct a Registrator that stores another identifier than \<open>x\<close> in
  the identifier cell of \<open>T\<close>, and it does not, in a build without assertions, assign another
  generator to \<open>x\<close> in the table of \<open>I\<close>.
\<close>

definition intact :: "type_names \<Rightarrow> ctype \<Rightarrow> ctype \<Rightarrow> TypeId \<Rightarrow> state \<Rightarrow> bool" where
  "intact nm T I x s =
     (wf s \<and>
      (case lookup s (registry_key nm I) of
         None \<Rightarrow> False
       | Some a \<Rightarrow>
           (case deref s a of
              Some (RegistryCell r) \<Rightarrow> map_find r x = Some (MixinNewInstance T I)
            | _ \<Rightarrow> False)) \<and>
      (case lookup s (typeid_key nm T I) of
         None \<Rightarrow> False
       | Some b \<Rightarrow> deref s b = Some (TypeIdCell x)))"

definition keeps :: "type_names \<Rightarrow> bool \<Rightarrow> ctype \<Rightarrow> ctype \<Rightarrow> TypeId \<Rightarrow> op \<Rightarrow> bool" where
  "keeps nm ndebug T I x c =
     ((Registrator_key nm c = Some (typeid_key nm T I) \<longrightarrow>
         (case registers c of None \<Rightarrow> True | Some (J, y, g) \<Rightarrow> y = x)) \<and>
      (case registers c of
         None \<Rightarrow> True
       | Some (J, y, g) \<Rightarrow>
           ndebug \<and> registry_key nm J = registry_key nm I \<and> y = x \<longrightarrow>
           g = MixinNewInstance T I))"

section \<open>A sample of type names\<close>

text \<open>
  Type names as a toolchain may give them. A class that is local to a translation unit (one
  declared in an unnamed namespace) carries the unit in its label, as in
  \<open>''a.cpp#Interface''\<close>; its type name does not mention the unit, so that two such classes
  of different units have the same type name.
\<close>

definition unqualified :: "string \<Rightarrow> string" where
  "unqualified c = rev (takeWhile (\<lambda>x. x \<noteq> CHR ''#'') (rev c))"

fun abi_name :: "ctype \<Rightarrow> string" where
  "abi_name (Class c) = unqualified c"
| "abi_name (FactoryT I) = ''Factory<'' @ abi_name I @ ''>''"
| "abi_name (RegistryT I) = ''map<string,function<shared_ptr<'' @ abi_name I @ ''>()>>''"
| "abi_name (FactoryMixinT T I) = ''FactoryMixin<'' @ abi_name T @ '','' @ abi_name I @ ''>''"
| "abi_name TypeIdT = ''string''"

section \<open>The example program\<close>

text \<open>
  The classes of \<^verbatim>\<open>factory_example/main.cpp\<close> and the state in which its \<^verbatim>\<open>main\<close> starts,
  after the two static Registrators have been constructed. \<open>Interface_a\<close> and
  \<open>Interface_b\<close> are two more interfaces, each local to a translation unit.
\<close>

definition Interface :: ctype where
  "Interface = Class ''Interface''"

definition class_A :: ctype where
  "class_A = Class ''A''"

definition class_B :: ctype where
  "class_B = Class ''B''"

definition registrations :: "op list" where
  "registrations = [MkRegistrator class_A Interface ''A'', MkRegistrator class_B Interface ''B'']"

definition started :: state where
  "started = run abi_name False registrations init"

text \<open>A second interface, not related to the first.\<close>

definition Shape :: ctype where
  "Shape = Class ''Shape''"

text \<open>A state in which three identifiers have been registered, in the order C, A, B.\<close>

definition three_registered :: state where
  "three_registered =
     run abi_name False
       [RegisterType Interface ''C'' EmptyFunction, RegisterType Interface ''A'' EmptyFunction,
        RegisterType Interface ''B'' EmptyFunction] init"

text \<open>The class A registered twice, under "X" and then under "Y".\<close>

definition registered_twice :: state where
  "registered_twice =
     run abi_name False
       [MkRegistrator class_A Interface ''X'', MkRegistrator class_A Interface ''Y''] init"

definition Interface_a :: ctype where
  "Interface_a = Class ''a.cpp#Interface''"

definition Interface_b :: ctype where
  "Interface_b = Class ''b.cpp#Interface''"

definition Impl_a :: ctype where
  "Impl_a = Class ''a.cpp#Impl''"

definition Impl_b :: ctype where
  "Impl_b = Class ''b.cpp#Impl''"

text \<open>
  Two programs that use the classes of the unit b.cpp only: one registers a generator for
  \<open>Interface_b\<close>, the other constructs the Registrator of \<open>Impl_b\<close>.
\<close>

definition b_registered :: state where
  "b_registered = run abi_name False [RegisterType Interface_b ''X'' EmptyFunction] init"

definition b_constructed :: state where
  "b_constructed = run abi_name False [MkRegistrator Impl_b Interface_b ''X''] init"

section \<open>Properties of the model\<close>

text \<open>The definitions to unfold when a call is evaluated on a given state.\<close>

lemmas storage_defs =
  value_cell_def value_key_def data_def storage_key_def registry_key_def typeid_key_def
  registry_def deref_def as_Registry_def as_TypeId_def store_def map_count_def map_size_def
  lookup_def keys_def init_def unqualified_def Let_def

lemmas call_defs =
  registerType_def newInstance_def registeredTypes_def isTypeRegistered_def Registrator_def
  staticTypeId_def typeId_def not_found_def returning_def ends_run_def table_def
  registered_def wf_def

lemmas example_defs =
  Interface_def class_A_def class_B_def registrations_def started_def three_registered_def
  registered_twice_def Interface_a_def Interface_b_def Impl_a_def Impl_b_def Shape_def
  b_registered_def b_constructed_def

subsection \<open>std::map\<close>

lemma map_find_assign:
  "map_find (map_assign m k v) k' = (if k' = k then Some v else map_find m k')"
  by (induction m) auto

lemma map_count_assign:
  "map_count (map_assign m k v) k' = (if k' = k then 1 else map_count m k')"
  by (simp add: map_count_def map_find_assign)

lemma map_find_keys: "(map_find m k = None) = (k \<notin> fst ` set m)"
  by (induction m) auto

lemma map_find_mem: "map_find m k = Some v \<Longrightarrow> (k, v) \<in> set m"
  by (induction m) (auto split: if_splits)

lemma map_count_keys: "(0 < map_count m k) = (k \<in> fst ` set m)"
  using map_find_keys [of m k] by (cases "map_find m k") (auto simp: map_count_def)

lemma set_assign_new:
  "map_find m k = None \<Longrightarrow> set (map_assign m k v) = insert (k, v) (set m)"
  by (induction m) (auto split: if_splits)

lemma keys_assign: "fst ` set (map_assign m k v) = insert k (fst ` set m)"
  by (induction m) auto

lemma length_assign_new:
  "map_find m k = None \<Longrightarrow> length (map_assign m k v) = Suc (length m)"
  by (induction m) (auto split: if_splits)

lemma distinct_values_assign_new:
  "map_find m k = None \<Longrightarrow>
   distinct (map snd (map_assign m k v)) = (v \<notin> snd ` set m \<and> distinct (map snd m))"
  by (induction m) (auto split: if_splits simp: set_assign_new)

lemma sorted_assign:
  "sorted_wrt (<) (map fst m) \<Longrightarrow> sorted_wrt (<) (map fst (map_assign m k v))"
proof (induction m)
  case Nil
  show ?case by simp
next
  case (Cons e m)
  have "\<forall>y \<in> fst ` set (map_assign m k v). fst e < y" if "fst e < k"
    using that Cons.prems by (auto simp: keys_assign)
  with Cons show ?case by auto
qed

lemma transform_eq:
  "i + length vs \<le> length result \<Longrightarrow>
   transform f vs result i = take i result @ map f vs @ drop (i + length vs) result"
proof (induction vs arbitrary: result i)
  case Nil
  show ?case by simp
next
  case (Cons v vs)
  then have "transform f (v # vs) result i =
      take (Suc i) (result[i := f v]) @ map f vs @ drop (Suc i + length vs) (result[i := f v])"
    by simp
  also have "take (Suc i) (result[i := f v]) = take i result @ [f v]"
    using Cons.prems by (simp add: take_Suc_conv_app_nth)
  finally show ?case by simp
qed

lemma transform_all: "transform f vs (replicate (length vs) z) 0 = map f vs"
  by (simp add: transform_eq)

subsection \<open>PerTypeStorage\<close>

lemma value_key_old: "lookup s k = Some a \<Longrightarrow> value_key dflt k s = (a, s)"
  by (auto simp: value_key_def data_def lookup_def split: option.splits)

lemma value_key_new:
  "lookup s k = None \<Longrightarrow>
   value_key dflt k s =
     (length (heap s),
      s\<lparr>heap := heap s @ [dflt],
        m_data := Some (map_assign (case m_data s of None \<Rightarrow> [] | Some d \<Rightarrow> d) k (length (heap s)))\<rparr>)"
  by (auto simp: value_key_def data_def lookup_def Let_def split: option.splits)

lemma lookup_value_key:
  "lookup (snd (value_key dflt k s)) k' =
     (if k' = k then Some (fst (value_key dflt k s)) else lookup s k')"
proof (cases "lookup s k")
  case None
  then show ?thesis
    by (auto simp: value_key_new lookup_def map_find_assign split: option.splits)
next
  case (Some a)
  then show ?thesis by (simp add: value_key_old)
qed

lemma heap_value_key:
  "heap (snd (value_key dflt k s)) = (if lookup s k = None then heap s @ [dflt] else heap s)"
  by (cases "lookup s k") (auto simp: value_key_new value_key_old)

lemma fst_value_key:
  "fst (value_key dflt k s) = (case lookup s k of None \<Rightarrow> length (heap s) | Some a \<Rightarrow> a)"
  by (cases "lookup s k") (auto simp: value_key_new value_key_old)

lemma objects_value_key: "objects (snd (value_key dflt k s)) = objects s"
  by (cases "lookup s k") (auto simp: value_key_new value_key_old)

lemma deref_value_key:
  "deref (snd (value_key dflt k s)) a =
     (if lookup s k = None \<and> a = length (heap s) then Some dflt else deref s a)"
  by (auto simp: deref_def heap_value_key nth_append)

lemma lookup_store [simp]: "lookup (store a c s) k = lookup s k"
  by (simp add: lookup_def store_def)

lemma deref_store:
  "deref (store a c s) b = (if b = a \<and> a < length (heap s) then Some c else deref s b)"
  by (auto simp: deref_def store_def)

lemma objects_store [simp]: "objects (store a c s) = objects s"
  by (simp add: store_def)

lemma wf_lookup_range: "wf s \<Longrightarrow> lookup s k = Some a \<Longrightarrow> a < length (heap s)"
  by (auto simp: wf_def lookup_def split: option.splits dest!: map_find_mem) force

lemma wf_lookup_inj:
  assumes "wf s" "lookup s k = Some a" "lookup s k' = Some a"
  shows "k = k'"
proof -
  from assms obtain d where d: "m_data s = Some d" "distinct (map snd d)"
    "(k, a) \<in> set d" "(k', a) \<in> set d"
    by (auto simp: wf_def lookup_def split: option.splits dest!: map_find_mem)
  then have "inj_on snd (set d)" by (simp add: distinct_map)
  from inj_onD [OF this _ d(3) d(4)] show ?thesis by simp
qed

lemma wf_value_key: "wf s \<Longrightarrow> wf (snd (value_key dflt k s))"
proof (cases "lookup s k")
  case None
  assume "wf s"
  show ?thesis
  proof (cases "m_data s")
    case N: None
    with \<open>wf s\<close> None show ?thesis by (auto simp: value_key_new wf_def)
  next
    case (Some d)
    with None have f: "map_find d k = None" by (simp add: lookup_def)
    from Some \<open>wf s\<close> have w: "sorted_wrt (<) (map fst d)" "distinct (map snd d)"
      "snd ` set d = {..<length (heap s)}" by (auto simp: wf_def)
    have "snd ` set (map_assign d k (length (heap s))) = {..<Suc (length (heap s))}"
      using w(3) by (auto simp: set_assign_new [OF f])
    moreover have "distinct (map snd (map_assign d k (length (heap s))))"
      using w by (auto simp: distinct_values_assign_new [OF f])
    ultimately show ?thesis
      using None Some w(1) by (simp add: value_key_new wf_def sorted_assign)
  qed
next
  case (Some a)
  assume "wf s"
  with Some show ?thesis by (simp add: value_key_old)
qed

lemma wf_store [simp]: "wf (store a c s) = wf s"
  by (simp add: wf_def store_def split: option.splits)

lemma wf_objects [simp]: "wf (s\<lparr>objects := n\<rparr>) = wf s"
  by (simp add: wf_def split: option.splits)

lemma lookup_objects [simp]: "lookup (s\<lparr>objects := n\<rparr>) k = lookup s k"
  by (simp add: lookup_def)

lemma deref_objects [simp]: "deref (s\<lparr>objects := n\<rparr>) a = deref s a"
  by (simp add: deref_def)

lemma wf_init: "wf init"
  by (simp add: wf_def init_def)

lemma wf_cells: "wf s \<Longrightarrow> length (heap s) = length (keys s) \<and> distinct (keys s)"
proof (cases "m_data s")
  case None
  assume "wf s"
  with None show ?thesis by (simp add: wf_def keys_def)
next
  case (Some d)
  assume "wf s"
  with Some have w: "sorted_wrt (<) (map fst d)" "distinct (map snd d)"
      "set (map snd d) = {..<length (heap s)}" by (auto simp: wf_def)
  from w(2) have "card (set (map snd d)) = length (map snd d)" by (rule distinct_card)
  with w(3) have "length (heap s) = length d" by simp
  moreover from w(1) have "distinct (map fst d)" by (simp add: strict_sorted_iff)
  ultimately show ?thesis using Some by (simp add: keys_def)
qed

subsection \<open>What a call does to the state\<close>

lemma registry_value_key:
  "registry nm I s = value_key (RegistryCell []) (registry_key nm I) s"
  by (simp add: registry_def value_cell_def registry_key_def)

lemma typeid_value_key:
  "value_cell nm (FactoryMixinT T I) TypeIdT dflt s = value_key dflt (typeid_key nm T I) s"
  by (simp add: value_cell_def typeid_key_def)

lemma lookup_after_value_key:
  "value_key dflt k s = (a, s1) \<Longrightarrow> lookup s1 k = Some a"
  using lookup_value_key [of dflt k s k] by simp

lemma registerType_preserves:
  assumes "P s"
    and alloc: "\<And>s. P s \<Longrightarrow> P (snd (value_key (RegistryCell []) (registry_key nm I) s))"
    and reg: "\<And>s a r. P s \<Longrightarrow> lookup s (registry_key nm I) = Some a \<Longrightarrow>
        as_Registry s a = Inr r \<Longrightarrow> ndebug \<or> map_count r x = 0 \<Longrightarrow>
        P (store a (RegistryCell (map_assign r x g)) s)"
  shows "P (snd (registerType nm ndebug I x g s))"
proof -
  obtain a s1 where R: "value_key (RegistryCell []) (registry_key nm I) s = (a, s1)"
    by (cases "value_key (RegistryCell []) (registry_key nm I) s")
  from alloc [OF \<open>P s\<close>] R have P1: "P s1" by simp
  from R have L: "lookup s1 (registry_key nm I) = Some a" by (rule lookup_after_value_key)
  show ?thesis
  proof (cases "as_Registry s1 a")
    case (Inl e)
    with R P1 show ?thesis by (simp add: registerType_def registry_value_key)
  next
    case (Inr r)
    show ?thesis
    proof (cases "ndebug \<or> map_count r x = 0")
      case True
      from reg [OF P1 L Inr True] R Inr True show ?thesis
        by (auto simp add: registerType_def registry_value_key)
    next
      case False
      with R Inr P1 show ?thesis by (auto simp add: registerType_def registry_value_key)
    qed
  qed
qed

lemma invoke_preserves:
  assumes "P s" and objs: "\<And>s n. P s \<Longrightarrow> P (s\<lparr>objects := n\<rparr>)"
  shows "P (snd (invoke g s))"
  using assms by (cases g) auto

lemma newInstance_preserves:
  assumes "P s"
    and alloc: "\<And>s. P s \<Longrightarrow> P (snd (value_key (RegistryCell []) (registry_key nm I) s))"
    and objs: "\<And>s n. P s \<Longrightarrow> P (s\<lparr>objects := n\<rparr>)"
  shows "P (snd (newInstance nm I x s))"
proof -
  obtain a s1 where R: "value_key (RegistryCell []) (registry_key nm I) s = (a, s1)"
    by (cases "value_key (RegistryCell []) (registry_key nm I) s")
  from alloc [OF \<open>P s\<close>] R have P1: "P s1" by simp
  then have "P (snd (invoke h s1))" for h using objs by (rule invoke_preserves)
  with P1 R show ?thesis
    by (auto simp: newInstance_def registry_value_key split: sum.splits option.splits)
qed

lemma registeredTypes_state:
  "snd (registeredTypes nm I s) = snd (value_key (RegistryCell []) (registry_key nm I) s)"
  by (auto simp: registeredTypes_def registry_value_key split: prod.splits sum.splits)

lemma isTypeRegistered_state:
  "snd (isTypeRegistered nm I x s) = snd (value_key (RegistryCell []) (registry_key nm I) s)"
  by (auto simp: isTypeRegistered_def registry_value_key split: prod.splits sum.splits)

lemma staticTypeId_state:
  "snd (staticTypeId nm T I s) = snd (value_key (TypeIdCell []) (typeid_key nm T I) s)"
  by (auto simp: staticTypeId_def typeid_value_key split: prod.splits)

lemma Registrator_preserves:
  assumes "P s"
    and alloc: "\<And>s. P s \<Longrightarrow> P (snd (value_key (RegistryCell []) (registry_key nm I) s))"
    and alloc': "\<And>s. P s \<Longrightarrow> P (snd (value_key (TypeIdCell []) (typeid_key nm T I) s))"
    and reg: "\<And>s a r. P s \<Longrightarrow> lookup s (registry_key nm I) = Some a \<Longrightarrow>
        as_Registry s a = Inr r \<Longrightarrow> ndebug \<or> map_count r x = 0 \<Longrightarrow>
        P (store a (RegistryCell (map_assign r x (MixinNewInstance T I))) s)"
    and tid: "\<And>s a y. P s \<Longrightarrow> lookup s (typeid_key nm T I) = Some a \<Longrightarrow>
        as_TypeId s a = Inr y \<Longrightarrow> P (store a (TypeIdCell x) s)"
  shows "P (snd (Registrator nm ndebug T I x s))"
proof -
  obtain r1 s1 where R: "registerType nm ndebug I x (MixinNewInstance T I) s = (r1, s1)"
    by (cases "registerType nm ndebug I x (MixinNewInstance T I) s")
  have "P (snd (registerType nm ndebug I x (MixinNewInstance T I) s))"
    using \<open>P s\<close> alloc reg by (rule registerType_preserves)
  with R have P1: "P s1" by simp
  obtain a s2 where V: "value_key (TypeIdCell []) (typeid_key nm T I) s1 = (a, s2)"
    by (cases "value_key (TypeIdCell []) (typeid_key nm T I) s1")
  from alloc' [OF P1] V have P2: "P s2" by simp
  from V have L: "lookup s2 (typeid_key nm T I) = Some a" by (rule lookup_after_value_key)
  show ?thesis
  proof (cases r1)
    case (Inl e)
    with R P1 show ?thesis by (simp add: Registrator_def)
  next
    case (Inr u)
    show ?thesis
    proof (cases "as_TypeId s2 a")
      case E: (Inl e)
      with R Inr V P2 show ?thesis by (simp add: Registrator_def typeid_value_key)
    next
      case Y: (Inr y)
      from tid [OF P2 L Y] R Inr V Y show ?thesis
        by (simp add: Registrator_def typeid_value_key)
    qed
  qed
qed

lemma typeId_preserves:
  assumes "P s"
    and alloc: "\<And>s k dflt. P s \<Longrightarrow> (k, dflt) \<in> set (op_cells nm (GetTypeId I p)) \<Longrightarrow>
        P (snd (value_key dflt k s))"
  shows "P (snd (typeId nm I p s))"
proof (cases "dynamic_cast I p")
  case None
  with \<open>P s\<close> show ?thesis by (simp add: typeId_def)
next
  case (Some c)
  show ?thesis
  proof (cases c)
    case (MixinClass T J)
    with Some alloc [OF \<open>P s\<close>, of "typeid_key nm T J" "TypeIdCell []"] show ?thesis
      by (simp add: typeId_def staticTypeId_state)
  next
    case (GetterClass J y)
    with Some \<open>P s\<close> show ?thesis by (simp add: typeId_def)
  next
    case PlainClass
    with Some \<open>P s\<close> show ?thesis by (simp add: typeId_def)
  qed
qed

lemma step_preserves:
  assumes "P s"
    and alloc: "\<And>s k dflt. P s \<Longrightarrow> (k, dflt) \<in> set (op_cells nm c) \<Longrightarrow>
        P (snd (value_key dflt k s))"
    and reg: "\<And>s I x g a r. P s \<Longrightarrow> registers c = Some (I, x, g) \<Longrightarrow>
        lookup s (registry_key nm I) = Some a \<Longrightarrow> as_Registry s a = Inr r \<Longrightarrow>
        ndebug \<or> map_count r x = 0 \<Longrightarrow> P (store a (RegistryCell (map_assign r x g)) s)"
    and tid: "\<And>s T I x a y. P s \<Longrightarrow> c = MkRegistrator T I x \<Longrightarrow>
        lookup s (typeid_key nm T I) = Some a \<Longrightarrow> as_TypeId s a = Inr y \<Longrightarrow>
        P (store a (TypeIdCell x) s)"
    and objs: "\<And>s n. P s \<Longrightarrow> P (s\<lparr>objects := n\<rparr>)"
  shows "P (snd (step nm ndebug c s))"
proof (cases c)
  case (RegisterType I x g)
  have "P (snd (registerType nm ndebug I x g s))"
    using \<open>P s\<close> by (rule registerType_preserves) (auto intro: alloc reg simp: RegisterType)
  with RegisterType show ?thesis by (simp add: returning_def)
next
  case (NewInstance I x)
  have "P (snd (newInstance nm I x s))"
    using \<open>P s\<close> by (rule newInstance_preserves) (auto intro: alloc objs simp: NewInstance)
  with NewInstance show ?thesis by (simp add: returning_def)
next
  case (RegisteredTypes I)
  with alloc [OF \<open>P s\<close>, of "registry_key nm I" "RegistryCell []"] show ?thesis
    by (simp add: returning_def registeredTypes_state)
next
  case (IsTypeRegistered I x)
  with alloc [OF \<open>P s\<close>, of "registry_key nm I" "RegistryCell []"] show ?thesis
    by (simp add: returning_def isTypeRegistered_state)
next
  case (MkRegistrator T I x)
  have "P (snd (Registrator nm ndebug T I x s))"
    using \<open>P s\<close> by (rule Registrator_preserves) (auto intro: alloc reg tid simp: MkRegistrator)
  with MkRegistrator show ?thesis by (simp add: returning_def)
next
  case (StaticTypeId T I)
  with alloc [OF \<open>P s\<close>, of "typeid_key nm T I" "TypeIdCell []"] show ?thesis
    by (simp add: returning_def staticTypeId_state)
next
  case (GetTypeId I p)
  have "P (snd (typeId nm I p s))"
    using \<open>P s\<close> alloc [unfolded GetTypeId] by (rule typeId_preserves)
  with GetTypeId show ?thesis by (simp add: returning_def)
qed

lemma run_preserves:
  assumes "P s" and "\<And>c s. c \<in> set cs \<Longrightarrow> P s \<Longrightarrow> P (snd (step nm ndebug c s))"
  shows "P (run nm ndebug cs s)"
  using assms by (induction cs arbitrary: s) auto

subsection \<open>Invariants of runs\<close>

lemma wf_step: "wf s \<Longrightarrow> wf (snd (step nm ndebug c s))"
  by (rule step_preserves) (simp_all add: wf_value_key)

lemma wf_run: "wf s \<Longrightarrow> wf (run nm ndebug cs s)"
  by (rule run_preserves) (simp_all add: wf_step)

lemma lookup_step: "lookup s k = Some a \<Longrightarrow> lookup (snd (step nm ndebug c s)) k = Some a"
  by (rule step_preserves) (auto simp: lookup_value_key fst_value_key)

lemma lookup_run: "lookup s k = Some a \<Longrightarrow> lookup (run nm ndebug cs s) k = Some a"
  by (rule run_preserves) (simp_all add: lookup_step)

lemma as_Registry_deref: "(as_Registry s a = Inr r) = (deref s a = Some (RegistryCell r))"
  by (auto simp: as_Registry_def split: option.splits cell.splits)

lemma as_TypeId_deref: "(as_TypeId s a = Inr x) = (deref s a = Some (TypeIdCell x))"
  by (auto simp: as_TypeId_def split: option.splits cell.splits)

lemma deref_range: "deref s a = Some c \<Longrightarrow> a < length (heap s)"
  by (simp add: deref_def split: if_splits)

lemma lookup_value_key_mono:
  "lookup s k' = Some a \<Longrightarrow> lookup (snd (value_key dflt k s)) k' = Some a"
  by (auto simp: lookup_value_key fst_value_key)

lemma deref_value_key_mono:
  "deref s a = Some c \<Longrightarrow> deref (snd (value_key dflt k s)) a = Some c"
  by (auto simp: deref_value_key dest: deref_range)

lemma registered_iff:
  "registered nm I x s =
     (\<exists>a r. lookup s (registry_key nm I) = Some a \<and> deref s a = Some (RegistryCell r) \<and>
        x \<in> fst ` set r)"
  by (auto simp: registered_def map_count_keys split: option.splits cell.splits)

lemma registered_step:
  assumes "registered nm I x s"
  shows "registered nm I x (snd (step nm ndebug c s))"
  using assms
proof (rule step_preserves)
  fix s k dflt
  assume "registered nm I x s"
  then obtain a r where "lookup s (registry_key nm I) = Some a"
    "deref s a = Some (RegistryCell r)" "x \<in> fst ` set r"
    by (auto simp: registered_iff)
  then have "lookup (snd (value_key dflt k s)) (registry_key nm I) = Some a"
    "deref (snd (value_key dflt k s)) a = Some (RegistryCell r)" "x \<in> fst ` set r"
    by (simp_all add: lookup_value_key_mono deref_value_key_mono)
  then show "registered nm I x (snd (value_key dflt k s))"
    unfolding registered_iff by blast
next
  fix s J y g a r
  assume "registered nm I x s" "as_Registry s a = Inr r"
  then obtain b q where b: "lookup s (registry_key nm I) = Some b"
    "deref s b = Some (RegistryCell q)" "x \<in> fst ` set q"
    and r: "deref s a = Some (RegistryCell r)"
    by (auto simp: registered_iff as_Registry_deref)
  let ?s = "store a (RegistryCell (map_assign r y g)) s"
  have "\<exists>q'. deref ?s b = Some (RegistryCell q') \<and> x \<in> fst ` set q'"
  proof (cases "b = a")
    case True
    with b r have "deref ?s b = Some (RegistryCell (map_assign r y g))" "x \<in> fst ` set r"
      by (auto simp: deref_store dest: deref_range)
    then show ?thesis by (auto simp: keys_assign)
  next
    case False
    with b show ?thesis by (auto simp: deref_store)
  qed
  with b(1) show "registered nm I x ?s"
    unfolding registered_iff by auto
next
  fix s T J y a z
  assume "registered nm I x s" "as_TypeId s a = Inr z"
  then obtain b q where b: "lookup s (registry_key nm I) = Some b"
    "deref s b = Some (RegistryCell q)" "x \<in> fst ` set q"
    and z: "deref s a = Some (TypeIdCell z)"
    by (auto simp: registered_iff as_TypeId_deref)
  then have "b \<noteq> a" by auto
  with b have "deref (store a (TypeIdCell y) s) b = Some (RegistryCell q)"
    by (simp add: deref_store)
  with b(1,3) show "registered nm I x (store a (TypeIdCell y) s)"
    unfolding registered_iff by auto
next
  fix s n
  assume "registered nm I x s"
  then show "registered nm I x (s\<lparr>objects := n\<rparr>)"
    by (simp add: registered_iff)
qed

text \<open>
  Claim C9 (monotonic growth). An identifier that is present in the table of an interface stays
  present after every sequence of calls of the library: no call removes an entry. The sequence
  may hold \<^verbatim>\<open>registerType\<close>, \<^verbatim>\<open>newInstance\<close>, \<^verbatim>\<open>registeredTypes\<close> and
  \<^verbatim>\<open>isTypeRegistered\<close> for any interface, and the calls of \<^verbatim>\<open>FactoryMixin\<close> and
  \<^verbatim>\<open>TypeIdGetter\<close> as well; it holds in either build configuration and for every state.
\<close>

theorem registered_monotone:
  "registered nm I x s \<Longrightarrow> registered nm I x (run nm ndebug cs s)"
  by (rule run_preserves) (simp_all add: registered_step)

theorem registered_monotone_witness:
  "registered abi_name Interface ''A'' started \<and>
   registered abi_name Interface ''A''
     (run abi_name True
        [NewInstance Interface ''C'', RegisterType Interface ''C'' EmptyFunction,
         RegisterType Interface ''B'' EmptyFunction, RegisteredTypes Interface,
         IsTypeRegistered Interface ''A''] started)"
proof -
  have present: "registered abi_name Interface ''A'' started" by code_simp
  from present registered_monotone [OF present] show ?thesis by blast
qed

lemma table_eq:
  "table nm I s =
     (case lookup s (registry_key nm I) of None \<Rightarrow> Inr [] | Some a \<Rightarrow> as_Registry s a)"
  by (auto simp: table_def registry_value_key value_key_new value_key_old as_Registry_def
      deref_def split: option.splits)

lemma value_cell_state:
  assumes "value_cell nm C V dflt s = (a, s1)"
  shows "(lookup s (storage_key nm C V) = None \<longrightarrow>
            a = length (heap s) \<and> heap s1 = heap s @ [dflt] \<and> deref s1 a = Some dflt) \<and>
         value_cell nm C V dflt (run nm ndebug cs s1) = (a, run nm ndebug cs s1) \<and>
         (wf s \<longrightarrow> wf (run nm ndebug cs s1))"
proof -
  let ?k = "storage_key nm C V" and ?s2 = "run nm ndebug cs s1"
  from assms have v: "value_key dflt ?k s = (a, s1)" by (simp add: value_cell_def)
  have first: "a = length (heap s) \<and> heap s1 = heap s @ [dflt] \<and> deref s1 a = Some dflt"
    if "lookup s ?k = None"
    using v that by (auto simp: value_key_new deref_def)
  from v have "lookup s1 ?k = Some a" by (rule lookup_after_value_key)
  then have "lookup ?s2 ?k = Some a" by (rule lookup_run)
  then have later: "value_cell nm C V dflt ?s2 = (a, ?s2)"
    by (simp add: value_cell_def value_key_old)
  have one: "wf ?s2" if "wf s"
  proof -
    from that have "wf (snd (value_key dflt ?k s))" by (rule wf_value_key)
    with v have "wf s1" by simp
    then show ?thesis by (rule wf_run)
  qed
  from first later one show ?thesis by blast
qed

lemma untouched_key:
  assumes "\<forall>c \<in> set cs. k \<notin> fst ` set (op_cells nm c)"
  shows "lookup (run nm ndebug cs init) k = None"
proof (rule run_preserves)
  show "lookup init k = None" by (simp add: lookup_def init_def)
next
  fix c s
  assume c: "c \<in> set cs" and n: "lookup s k = None"
  from n show "lookup (snd (step nm ndebug c s)) k = None"
  proof (rule step_preserves)
    fix s k' d
    assume "lookup s k = None" "(k', d) \<in> set (op_cells nm c)"
    with assms c have "k' \<noteq> k" by force
    with \<open>lookup s k = None\<close> show "lookup (snd (value_key d k' s)) k = None"
      by (simp add: lookup_value_key)
  qed simp_all
qed

text \<open>
  Claim C1 (one cell per key), as amended. \<^verbatim>\<open>value<ClassType, ValueType>()\<close> addresses the
  cell stored under the key made of the two type names, the name of \<open>ClassType\<close>, " / " and the
  name of \<open>ValueType\<close>. Take a program that, from its start, has made calls none of which
  addressed that key, for this pair or for another pair with the same two names, and let it now
  call \<^verbatim>\<open>value<ClassType, ValueType>()\<close>. This call allocates a new cell, which holds the
  default-constructed value, stores it under the key and returns it. After any further calls
  of the library, a call for the same pair returns that same cell and changes nothing. At
  every such moment the storage holds as many cells as it has keys, and no key twice.
\<close>

theorem value_cell_unique:
  assumes "\<forall>c \<in> set before. storage_key nm C V \<notin> fst ` set (op_cells nm c)"
    and "value_cell nm C V dflt (run nm ndebug before init) = (a, s1)"
  shows "a = length (heap (run nm ndebug before init)) \<and>
         heap s1 = heap (run nm ndebug before init) @ [dflt] \<and>
         deref s1 a = Some dflt \<and>
         lookup s1 (nm C @ '' / '' @ nm V) = Some a \<and>
         value_cell nm C V dflt (run nm ndebug after s1) = (a, run nm ndebug after s1) \<and>
         length (heap (run nm ndebug after s1)) = length (keys (run nm ndebug after s1)) \<and>
         distinct (keys (run nm ndebug after s1))"
proof -
  let ?s = "run nm ndebug before init"
  from assms(1) have "lookup ?s (storage_key nm C V) = None" by (rule untouched_key)
  moreover have "wf ?s" using wf_init by (rule wf_run)
  ultimately have "a = length (heap ?s) \<and> heap s1 = heap ?s @ [dflt] \<and> deref s1 a = Some dflt"
    and "value_cell nm C V dflt (run nm ndebug after s1) = (a, run nm ndebug after s1)"
    and "wf (run nm ndebug after s1)"
    using value_cell_state [OF assms(2), of ndebug after] by blast+
  moreover from assms(2) have "lookup s1 (nm C @ '' / '' @ nm V) = Some a"
    unfolding value_cell_def storage_key_def by (rule lookup_after_value_key)
  ultimately show ?thesis using wf_cells by blast
qed

theorem value_cell_unique_witness:
  "value_cell abi_name (FactoryT Interface) (RegistryT Interface) (RegistryCell [])
     (run abi_name False [RegisteredTypes Shape] init) =
     (1, run abi_name False [RegisteredTypes Shape, RegisteredTypes Interface] init) \<and>
   storage_key abi_name (FactoryT Interface) (RegistryT Interface) \<notin>
     fst ` set (op_cells abi_name (RegisteredTypes Shape)) \<and>
   heap (run abi_name False [RegisteredTypes Shape, RegisteredTypes Interface] init) =
     heap (run abi_name False [RegisteredTypes Shape] init) @ [RegistryCell []] \<and>
   lookup (run abi_name False [RegisteredTypes Shape, RegisteredTypes Interface] init)
     ''Factory<Interface> / map<string,function<shared_ptr<Interface>()>>'' = Some 1 \<and>
   value_cell abi_name (FactoryT Interface) (RegistryT Interface) (RegistryCell [])
     (run abi_name False registrations
        (run abi_name False [RegisteredTypes Shape, RegisteredTypes Interface] init)) =
     (1, run abi_name False registrations
        (run abi_name False [RegisteredTypes Shape, RegisteredTypes Interface] init))"
proof -
  let ?s1 = "run abi_name False [RegisteredTypes Shape, RegisteredTypes Interface] init"
  have first: "value_cell abi_name (FactoryT Interface) (RegistryT Interface) (RegistryCell [])
     (run abi_name False [RegisteredTypes Shape] init) = (1, ?s1)"
    by (simp add: storage_defs call_defs example_defs)
  have untouched: "\<forall>c \<in> set [RegisteredTypes Shape].
      storage_key abi_name (FactoryT Interface) (RegistryT Interface) \<notin>
        fst ` set (op_cells abi_name c)"
    by (simp add: storage_defs example_defs)
  have name: "abi_name (FactoryT Interface) @ '' / '' @ abi_name (RegistryT Interface) =
      ''Factory<Interface> / map<string,function<shared_ptr<Interface>()>>''"
    by (simp add: example_defs unqualified_def)
  note cell = value_cell_unique [OF untouched first, of registrations]
  from untouched have u: "storage_key abi_name (FactoryT Interface) (RegistryT Interface) \<notin>
      fst ` set (op_cells abi_name (RegisteredTypes Shape))" by simp
  from cell have h: "heap ?s1 = heap (run abi_name False [RegisteredTypes Shape] init) @
      [RegistryCell []]" by blast
  from cell have "lookup ?s1
      (abi_name (FactoryT Interface) @ '' / '' @ abi_name (RegistryT Interface)) = Some 1"
    by blast
  then have k: "lookup ?s1
      ''Factory<Interface> / map<string,function<shared_ptr<Interface>()>>'' = Some 1"
    by (simp only: name)
  from cell have l: "value_cell abi_name (FactoryT Interface) (RegistryT Interface)
      (RegistryCell []) (run abi_name False registrations ?s1) =
      (1, run abi_name False registrations ?s1)" by blast
  from first u h k l show ?thesis by blast
qed

text \<open>
  The claim as it was stated, for the first call of every pair, fails for two pairs with the
  same type names. The program below has made no call for the pair of \<open>Interface_a\<close>: it has
  registered "X" for \<open>Interface_b\<close> only. The first call of \<^verbatim>\<open>value\<close> for the pair of
  \<open>Interface_a\<close> constructs nothing: it returns the cell of the other pair, which holds the
  entry for "X", and leaves the state as it was.
\<close>

theorem value_cell_unique_counterexample:
  "FactoryT Interface_a \<noteq> FactoryT Interface_b \<and>
   RegistryT Interface_a \<noteq> RegistryT Interface_b \<and>
   b_registered = run abi_name False [RegisterType Interface_b ''X'' EmptyFunction] init \<and>
   value_cell abi_name (FactoryT Interface_a) (RegistryT Interface_a) (RegistryCell [])
     b_registered = (0, b_registered) \<and>
   deref b_registered 0 = Some (RegistryCell [(''X'', EmptyFunction)]) \<and>
   heap b_registered = [RegistryCell [(''X'', EmptyFunction)]]"
  by (simp add: storage_defs call_defs example_defs)

subsection \<open>Tables\<close>

lemma table_registry:
  assumes "table nm I s = Inr r"
  obtains a s1 where "registry nm I s = (a, s1)" "as_Registry s1 a = Inr r"
    "lookup s1 (registry_key nm I) = Some a"
proof -
  obtain a s1 where R: "registry nm I s = (a, s1)" by (cases "registry nm I s")
  with assms have "as_Registry s1 a = Inr r" by (simp add: table_def)
  moreover from R have "lookup s1 (registry_key nm I) = Some a"
    unfolding registry_value_key by (rule lookup_after_value_key)
  ultimately show ?thesis using R that by blast
qed

lemma map_count_find: "map_count r x = (if map_find r x = None then 0 else 1)"
  by (simp add: map_count_def split: option.splits)

lemma table_present:
  assumes "table nm I s = Inr r" "map_find r x = Some g"
  obtains a where "lookup s (registry_key nm I) = Some a" "as_Registry s a = Inr r"
    "registry nm I s = (a, s)"
proof (cases "lookup s (registry_key nm I)")
  case None
  with assms show ?thesis by (simp add: table_eq)
next
  case (Some a)
  with assms have "as_Registry s a = Inr r" by (simp add: table_eq)
  moreover from Some have "registry nm I s = (a, s)"
    by (simp add: registry_value_key value_key_old)
  ultimately show ?thesis using Some that by blast
qed

lemma deref_end [simp]: "deref s (length (heap s)) = None"
  by (simp add: deref_def)

lemma registered_fresh_table:
  "registered nm J y (snd (value_key (RegistryCell []) k s)) = registered nm J y s"
proof (cases "lookup s k")
  case None
  let ?s = "snd (value_key (RegistryCell []) k s)"
  have L: "lookup ?s k' = (if k' = k then Some (length (heap s)) else lookup s k')" for k'
    using None by (simp add: lookup_value_key fst_value_key)
  have D: "deref ?s a = (if a = length (heap s) then Some (RegistryCell []) else deref s a)"
    for a using None by (simp add: deref_value_key)
  show ?thesis
  proof (cases "registry_key nm J = k")
    case True
    with None show ?thesis by (simp add: registered_def L D map_count_def)
  next
    case False
    show ?thesis
    proof (cases "lookup s (registry_key nm J)")
      case N: None
      with False show ?thesis by (simp add: registered_def L)
    next
      case (Some a)
      with False show ?thesis
        by (cases "a = length (heap s)") (simp_all add: registered_def L D map_count_def)
    qed
  qed
next
  case (Some a)
  then show ?thesis by (simp add: value_key_old)
qed

lemma started_table:
  "table abi_name Interface started =
     Inr [(''A'', MixinNewInstance class_A Interface), (''B'', MixinNewInstance class_B Interface)]"
  by (simp add: storage_defs call_defs example_defs)

section \<open>Creating instances\<close>

text \<open>
  Claim C2 (\<^verbatim>\<open>newInstance\<close>). Let \<open>r\<close> be the table of interface \<open>I\<close>. When \<open>x\<close> is absent from
  \<open>r\<close>, which is when \<^verbatim>\<open>isTypeRegistered\<close> answers false, \<^verbatim>\<open>newInstance(x)\<close> throws the
  "Failed to find type" error. When \<open>r\<close> holds the generator \<open>g\<close> for \<open>x\<close>, the call is the call of
  \<open>g\<close>: it returns what \<open>g\<close> returns and fails as \<open>g\<close> fails. So \<^verbatim>\<open>newInstance\<close> itself raises
  the error exactly when the identifier is absent.
\<close>

theorem newInstance_lookup:
  assumes "table nm I s = Inr r"
  shows "(map_find r x = None \<longrightarrow>
            newInstance nm I x s = (Inl (not_found x), snd (registry nm I s)) \<and>
            fst (isTypeRegistered nm I x s) = Inr False) \<and>
         (\<forall>g. map_find r x = Some g \<longrightarrow>
            newInstance nm I x s = invoke g (snd (registry nm I s)) \<and>
            fst (isTypeRegistered nm I x s) = Inr True)"
proof -
  from assms obtain a s1 where "registry nm I s = (a, s1)" "as_Registry s1 a = Inr r"
    by (rule table_registry)
  then show ?thesis
    by (simp add: newInstance_def isTypeRegistered_def map_count_find)
qed

theorem newInstance_lookup_witness:
  "table abi_name Interface started =
     Inr [(''A'', MixinNewInstance class_A Interface), (''B'', MixinNewInstance class_B Interface)] \<and>
   newInstance abi_name Interface ''C'' started = (Inl (not_found ''C''), started) \<and>
   fst (isTypeRegistered abi_name Interface ''C'' started) = Inr False \<and>
   newInstance abi_name Interface ''B'' started =
     invoke (MixinNewInstance class_B Interface) started \<and>
   fst (isTypeRegistered abi_name Interface ''B'' started) = Inr True"
proof -
  have same: "snd (registry abi_name Interface started) = started"
    by (simp add: storage_defs call_defs example_defs)
  from newInstance_lookup [OF started_table, of "''C''"]
    newInstance_lookup [OF started_table, of "''B''"]
  show ?thesis by (simp add: started_table same)
qed

text \<open>
  Claim C8 (unknown identifier), as amended. For an identifier that is absent from the table of
  \<open>I\<close>, \<^verbatim>\<open>newInstance\<close> fails with the "Failed to find type" error, calls no generator and
  constructs no object. Its whole effect on the state is that of \<^verbatim>\<open>registry()\<close>: nothing when
  the table of \<open>I\<close> has been accessed before, and the creation of the empty table (and, if it
  is the very first access, of the key map) otherwise. Every existing cell keeps its address and
  its content, and no interface gains or loses a registered identifier.
\<close>

theorem newInstance_unknown:
  assumes "table nm I s = Inr r" and "map_find r x = None"
  shows "fst (newInstance nm I x s) = Inl (not_found x) \<and>
         snd (newInstance nm I x s) = snd (registry nm I s) \<and>
         objects (snd (newInstance nm I x s)) = objects s \<and>
         (lookup s (registry_key nm I) \<noteq> None \<longrightarrow> snd (newInstance nm I x s) = s) \<and>
         (\<forall>k a. lookup s k = Some a \<longrightarrow> lookup (snd (newInstance nm I x s)) k = Some a) \<and>
         (\<forall>a c. deref s a = Some c \<longrightarrow> deref (snd (newInstance nm I x s)) a = Some c) \<and>
         (\<forall>J y. registered nm J y (snd (newInstance nm I x s)) = registered nm J y s)"
proof -
  from assms(1) obtain a s1 where R: "registry nm I s = (a, s1)" "as_Registry s1 a = Inr r"
    by (rule table_registry)
  with assms(2) have N: "newInstance nm I x s = (Inl (not_found x), snd (registry nm I s))"
    by (simp add: newInstance_def)
  have S: "snd (registry nm I s) = snd (value_key (RegistryCell []) (registry_key nm I) s)"
    by (simp add: registry_value_key)
  have "lookup s (registry_key nm I) \<noteq> None \<longrightarrow> snd (registry nm I s) = s"
    by (auto simp: S value_key_old)
  with N show ?thesis
    by (simp add: S objects_value_key lookup_value_key_mono deref_value_key_mono
        registered_fresh_table)
qed

theorem newInstance_unknown_witness:
  "table abi_name Interface started =
     Inr [(''A'', MixinNewInstance class_A Interface), (''B'', MixinNewInstance class_B Interface)] \<and>
   map_find [(''A'', MixinNewInstance class_A Interface), (''B'', MixinNewInstance class_B Interface)]
     ''nonexistent'' = None \<and>
   lookup started (registry_key abi_name Interface) \<noteq> None \<and>
   newInstance abi_name Interface ''nonexistent'' started = (Inl (not_found ''nonexistent''), started)"
proof -
  have absent: "map_find [(''A'', MixinNewInstance class_A Interface),
      (''B'', MixinNewInstance class_B Interface)] ''nonexistent'' = None" by simp
  have cell: "lookup started (registry_key abi_name Interface) \<noteq> None"
    by (simp add: storage_defs call_defs example_defs)
  from newInstance_unknown [OF started_table absent] cell
  have "newInstance abi_name Interface ''nonexistent'' started =
      (Inl (not_found ''nonexistent''), started)"
    by (metis prod.collapse)
  with absent cell show ?thesis by (simp add: started_table)
qed

text \<open>
  The claim as it was stated, with the state left unchanged, fails for the first access to a
  table: in the initial state the call allocates the key map and the empty table.
\<close>

theorem newInstance_unknown_counterexample:
  "fst (newInstance abi_name Interface ''nonexistent'' init) = Inl (not_found ''nonexistent'') \<and>
   snd (newInstance abi_name Interface ''nonexistent'' init) \<noteq> init \<and>
   heap init = [] \<and>
   heap (snd (newInstance abi_name Interface ''nonexistent'' init)) = [RegistryCell []] \<and>
   m_data init = None \<and>
   m_data (snd (newInstance abi_name Interface ''nonexistent'' init)) =
     Some [(registry_key abi_name Interface, 0)]"
  by (simp add: storage_defs call_defs example_defs)

section \<open>Registering\<close>

text \<open>
  Claim C3 (duplicate registration), as amended. Let the table of \<open>I\<close> hold an entry for \<open>x\<close>. In a
  build with assertions (\<^verbatim>\<open>NDEBUG\<close> not defined) a further \<^verbatim>\<open>registerType\<close> for \<open>x\<close> fails
  its assertion, which aborts the process, and the state is as before: the stored generator is
  not replaced. In a build with \<^verbatim>\<open>NDEBUG\<close> the call returns normally and the table then holds
  the new generator for \<open>x\<close>.
\<close>

theorem registerType_duplicate:
  assumes "table nm I s = Inr r" and "map_find r x = Some g0"
  shows "(\<not> ndebug \<longrightarrow> registerType nm ndebug I x g s = (Inl AssertionFailed, s)) \<and>
         (ndebug \<longrightarrow> fst (registerType nm ndebug I x g s) = Inr () \<and>
            table nm I (snd (registerType nm ndebug I x g s)) = Inr (map_assign r x g) \<and>
            map_find (map_assign r x g) x = Some g)"
proof -
  from assms obtain a where a: "lookup s (registry_key nm I) = Some a"
    "as_Registry s a = Inr r" "registry nm I s = (a, s)"
    by (rule table_present)
  from a(2) have "a < length (heap s)"
    by (auto simp: as_Registry_deref dest: deref_range)
  then have "as_Registry (store a (RegistryCell q) s) a = Inr q" for q
    by (simp add: as_Registry_deref deref_store)
  with a assms(2) show ?thesis
    by (simp add: registerType_def map_count_find table_eq map_find_assign)
qed

theorem registerType_duplicate_witness:
  "table abi_name Interface started =
     Inr [(''A'', MixinNewInstance class_A Interface), (''B'', MixinNewInstance class_B Interface)] \<and>
   map_find [(''A'', MixinNewInstance class_A Interface), (''B'', MixinNewInstance class_B Interface)]
     ''A'' = Some (MixinNewInstance class_A Interface) \<and>
   registerType abi_name False Interface ''A'' (MixinNewInstance class_B Interface) started =
     (Inl AssertionFailed, started)"
proof -
  have present: "map_find [(''A'', MixinNewInstance class_A Interface),
      (''B'', MixinNewInstance class_B Interface)] ''A'' = Some (MixinNewInstance class_A Interface)"
    by simp
  from registerType_duplicate [OF started_table present, of False] present
  show ?thesis by (simp add: started_table)
qed

text \<open>
  The claim as it was stated, for every build, fails with \<^verbatim>\<open>NDEBUG\<close>: the second registration
  of "A", with the generator of another class, succeeds and replaces the generator.
\<close>

theorem registerType_duplicate_counterexample:
  "table abi_name Interface started =
     Inr [(''A'', MixinNewInstance class_A Interface), (''B'', MixinNewInstance class_B Interface)] \<and>
   fst (registerType abi_name True Interface ''A'' (MixinNewInstance class_B Interface) started) =
     Inr () \<and>
   table abi_name Interface
     (snd (registerType abi_name True Interface ''A'' (MixinNewInstance class_B Interface) started)) =
     Inr [(''A'', MixinNewInstance class_B Interface), (''B'', MixinNewInstance class_B Interface)] \<and>
   MixinNewInstance class_B Interface \<noteq> MixinNewInstance class_A Interface"
  by (simp add: storage_defs call_defs example_defs)

section \<open>Listing the registered identifiers\<close>

text \<open>
  Claim C6 (completeness). Let \<open>r\<close> be the table of interface \<open>I\<close>. \<^verbatim>\<open>registeredTypes()\<close>
  returns a sequence whose elements are exactly the identifiers that have an entry in \<open>r\<close>, which
  are exactly the identifiers for which \<^verbatim>\<open>isTypeRegistered\<close> answers true. Nothing is said of
  the order.
\<close>

theorem registeredTypes_complete:
  assumes "table nm I s = Inr r"
  shows "\<exists>ids. fst (registeredTypes nm I s) = Inr ids \<and>
           set ids = {x. map_find r x \<noteq> None} \<and>
           set ids = {x. fst (isTypeRegistered nm I x s) = Inr True}"
proof -
  from assms obtain a s1 where R: "registry nm I s = (a, s1)" "as_Registry s1 a = Inr r"
    by (rule table_registry)
  then have "fst (registeredTypes nm I s) = Inr (map fst r)"
    by (simp add: registeredTypes_def map_size_def transform_all)
  moreover have "set (map fst r) = {x. map_find r x \<noteq> None}"
    by (auto simp: map_find_keys)
  moreover from R have "fst (isTypeRegistered nm I x s) = Inr (map_find r x \<noteq> None)" for x
    by (simp add: isTypeRegistered_def map_count_find)
  ultimately show ?thesis by auto
qed

theorem registeredTypes_complete_witness:
  "table abi_name Interface three_registered =
     Inr [(''A'', EmptyFunction), (''B'', EmptyFunction), (''C'', EmptyFunction)] \<and>
   fst (registeredTypes abi_name Interface three_registered) = Inr [''A'', ''B'', ''C''] \<and>
   {x. fst (isTypeRegistered abi_name Interface x three_registered) = Inr True} =
     {''A'', ''B'', ''C''}"
proof -
  have t: "table abi_name Interface three_registered =
      Inr [(''A'', EmptyFunction), (''B'', EmptyFunction), (''C'', EmptyFunction)]"
    by (simp add: storage_defs call_defs example_defs)
  have l: "fst (registeredTypes abi_name Interface three_registered) = Inr [''A'', ''B'', ''C'']"
    by (simp add: storage_defs call_defs example_defs)
  from registeredTypes_complete [OF t] obtain ids where
    ids: "fst (registeredTypes abi_name Interface three_registered) = Inr ids"
      "set ids = {x. fst (isTypeRegistered abi_name Interface x three_registered) = Inr True}"
    by blast
  from ids(1) l have "ids = [''A'', ''B'', ''C'']" by simp
  with ids(2) have "{x. fst (isTypeRegistered abi_name Interface x three_registered) = Inr True} =
      {''A'', ''B'', ''C''}" by simp
  with t l show ?thesis by blast
qed

section \<open>Recovering the identifier of an instance\<close>

text \<open>
  Claim C7 (soft identity check). \<^verbatim>\<open>TypeIdGetter<I>::typeId(o)\<close> is the virtual
  \<^verbatim>\<open>typeId()\<close> of the object when its class has the base \<^verbatim>\<open>TypeIdGetter<I>\<close>. For an object
  of any other class, and for a null pointer, it returns the empty string, as a normal result
  and without touching the state.
\<close>

theorem typeId_soft:
  "typeId nm I Null s = (Inr [], s) \<and>
   (has_TypeIdGetter c I \<longrightarrow> typeId nm I (Ptr n c) s = virtual_typeId nm c s) \<and>
   (\<not> has_TypeIdGetter c I \<longrightarrow> typeId nm I (Ptr n c) s = (Inr [], s))"
  by (simp add: typeId_def)

theorem typeId_soft_witness:
  "has_TypeIdGetter (MixinClass class_A Interface) Interface \<and>
   typeId abi_name Interface (Ptr 0 (MixinClass class_A Interface)) started = (Inr ''A'', started) \<and>
   \<not> has_TypeIdGetter PlainClass Interface \<and>
   typeId abi_name Interface (Ptr 1 PlainClass) started = (Inr [], started) \<and>
   \<not> has_TypeIdGetter (MixinClass class_A Interface_a) Interface \<and>
   typeId abi_name Interface (Ptr 2 (MixinClass class_A Interface_a)) started = (Inr [], started)"
proof -
  have own: "staticTypeId abi_name class_A Interface started = (Inr ''A'', started)"
    by (simp add: storage_defs call_defs example_defs)
  have other: "Interface_a \<noteq> Interface" by (simp add: example_defs)
  from typeId_soft [of abi_name Interface started "MixinClass class_A Interface" 0]
    typeId_soft [of abi_name Interface started PlainClass 1]
    typeId_soft [of abi_name Interface started "MixinClass class_A Interface_a" 2]
  show ?thesis by (simp add: own other)
qed

section \<open>The identifier of an implementation\<close>

lemma op_cells_default:
  "(k, d) \<in> set (op_cells nm c) \<Longrightarrow> d = RegistryCell [] \<or> d = TypeIdCell []"
  by (cases c) (auto split: option.splits dyn_class.splits)

lemma unset_init: "unset k init"
  using wf_init by (simp add: unset_def lookup_def init_def)

lemma unset_value_key:
  assumes "unset k s" and "k' = k \<longrightarrow> d = TypeIdCell []"
  shows "unset k (snd (value_key d k' s))"
proof -
  let ?s = "snd (value_key d k' s)"
  from assms(1) have "wf s" by (simp add: unset_def)
  then have w: "wf ?s" by (rule wf_value_key)
  show ?thesis
  proof (cases "lookup s k")
    case None
    with assms(2) have "case lookup ?s k of None \<Rightarrow> True
        | Some a \<Rightarrow> deref ?s a = Some (TypeIdCell [])"
      by (auto simp: lookup_value_key fst_value_key deref_value_key)
    with w show ?thesis by (simp add: unset_def)
  next
    case (Some a)
    with assms(1) have "deref s a = Some (TypeIdCell [])" by (simp add: unset_def)
    then have "deref ?s a = Some (TypeIdCell [])" by (rule deref_value_key_mono)
    moreover from Some have "lookup ?s k = Some a" by (rule lookup_value_key_mono)
    ultimately show ?thesis using w by (simp add: unset_def)
  qed
qed

lemma unset_step:
  assumes "unset k s" and "leaves_unset nm k c"
  shows "unset k (snd (step nm ndebug c s))"
  using assms(1)
proof (rule step_preserves)
  fix s k' d
  assume "unset k s" "(k', d) \<in> set (op_cells nm c)"
  with assms(2) op_cells_default [of k' d nm c] have "k' = k \<longrightarrow> d = TypeIdCell []"
    by (auto simp: leaves_unset_def)
  with \<open>unset k s\<close> show "unset k (snd (value_key d k' s))" by (rule unset_value_key)
next
  fix s J y g a r
  assume u: "unset k s" and r: "as_Registry s a = Inr r"
  then have "lookup s k \<noteq> Some a"
    by (auto simp: unset_def as_Registry_deref)
  with u show "unset k (store a (RegistryCell (map_assign r y g)) s)"
    by (auto simp: unset_def deref_store split: option.splits)
next
  fix s T J y a z
  assume u: "unset k s" and c: "c = MkRegistrator T J y"
    and l: "lookup s (typeid_key nm T J) = Some a"
  from c assms(2) have "typeid_key nm T J \<noteq> k" by (auto simp: leaves_unset_def)
  with u l have "lookup s k \<noteq> Some a" by (auto simp: unset_def dest: wf_lookup_inj)
  with u show "unset k (store a (TypeIdCell y) s)"
    by (auto simp: unset_def deref_store split: option.splits)
next
  fix s n
  assume "unset k s"
  then show "unset k (s\<lparr>objects := n\<rparr>)" by (simp add: unset_def split: option.splits)
qed

lemma unset_staticTypeId:
  assumes "unset (typeid_key nm T I) s"
  shows "fst (staticTypeId nm T I s) = Inr []"
proof (cases "lookup s (typeid_key nm T I)")
  case None
  then show ?thesis
    by (simp add: staticTypeId_def typeid_value_key value_key_new as_TypeId_def deref_def)
next
  case (Some a)
  with assms show ?thesis
    by (simp add: staticTypeId_def typeid_value_key value_key_old as_TypeId_deref unset_def)
qed

text \<open>
  Claim C10 (identifier before registration), as amended. The identifier of \<open>(T, I)\<close> lives in
  the cell under the key made of the type names of \<^verbatim>\<open>FactoryMixin<T, I>\<close> and of
  \<^verbatim>\<open>TypeId\<close>. Take any run from the start of the program in which no Registrator has been
  constructed whose identifier cell is under that key, for the pair \<open>(T, I)\<close> or for another
  pair with the same type names, and in which that key is not used for a table. Afterwards
  \<^verbatim>\<open>FactoryMixin<T, I>::staticTypeId()\<close> returns the empty string as a normal result, and so
  do the virtual \<^verbatim>\<open>typeId()\<close> and \<^verbatim>\<open>TypeIdGetter<I>::typeId\<close> on an instance of \<open>T\<close>: the
  cell is default-constructed on first access.
\<close>

theorem staticTypeId_before_Registrator:
  assumes "\<forall>c \<in> set cs. leaves_unset nm (typeid_key nm T I) c"
  shows "fst (staticTypeId nm T I (run nm ndebug cs init)) = Inr [] \<and>
         fst (virtual_typeId nm (MixinClass T I) (run nm ndebug cs init)) = Inr [] \<and>
         fst (typeId nm I (Ptr n (MixinClass T I)) (run nm ndebug cs init)) = Inr []"
proof -
  have "unset (typeid_key nm T I) (run nm ndebug cs init)"
  proof (rule run_preserves)
    show "unset (typeid_key nm T I) init" by (rule unset_init)
  next
    fix c s
    assume "c \<in> set cs" "unset (typeid_key nm T I) s"
    with assms show "unset (typeid_key nm T I) (snd (step nm ndebug c s))"
      by (simp add: unset_step)
  qed
  then have "fst (staticTypeId nm T I (run nm ndebug cs init)) = Inr []"
    by (rule unset_staticTypeId)
  then show ?thesis by (simp add: typeId_def)
qed

theorem staticTypeId_before_Registrator_witness:
  "leaves_unset abi_name (typeid_key abi_name class_B Interface)
     (MkRegistrator class_A Interface ''A'') \<and>
   leaves_unset abi_name (typeid_key abi_name class_B Interface) (NewInstance Interface ''A'') \<and>
   leaves_unset abi_name (typeid_key abi_name class_B Interface)
     (StaticTypeId class_A Interface) \<and>
   fst (staticTypeId abi_name class_B Interface
     (run abi_name False [MkRegistrator class_A Interface ''A'', NewInstance Interface ''A'',
        StaticTypeId class_A Interface] init)) = Inr [] \<and>
   fst (typeId abi_name Interface (Ptr 0 (MixinClass class_B Interface))
     (run abi_name False [MkRegistrator class_A Interface ''A'', NewInstance Interface ''A'',
        StaticTypeId class_A Interface] init)) = Inr [] \<and>
   fst (staticTypeId abi_name class_B Interface started) = Inr ''B''"
proof -
  have h: "\<forall>c \<in> set [MkRegistrator class_A Interface ''A'', NewInstance Interface ''A'',
        StaticTypeId class_A Interface]. leaves_unset abi_name (typeid_key abi_name class_B Interface) c"
    by (simp add: leaves_unset_def storage_defs example_defs)
  have after: "fst (staticTypeId abi_name class_B Interface started) = Inr ''B''"
    by (simp add: storage_defs call_defs example_defs)
  from staticTypeId_before_Registrator [OF h, of False 0] h after show ?thesis by simp
qed

text \<open>
  The claim as it was stated, for every run without a Registrator for the pair itself, fails
  when another pair has the same type names. The program below has constructed the Registrator
  of \<open>Impl_b\<close> for \<open>Interface_b\<close> with "X", and none for \<open>Impl_a\<close> and \<open>Interface_a\<close>; the
  identifier of \<open>Impl_a\<close> is "X" all the same, by the static query, by the virtual one and by
  \<^verbatim>\<open>TypeIdGetter\<close>.
\<close>

theorem staticTypeId_before_Registrator_counterexample:
  "Impl_a \<noteq> Impl_b \<and> Interface_a \<noteq> Interface_b \<and>
   b_constructed = run abi_name False [MkRegistrator Impl_b Interface_b ''X''] init \<and>
   typeid_key abi_name Impl_a Interface_a = typeid_key abi_name Impl_b Interface_b \<and>
   staticTypeId abi_name Impl_a Interface_a b_constructed = (Inr ''X'', b_constructed) \<and>
   virtual_typeId abi_name (MixinClass Impl_a Interface_a) b_constructed =
     (Inr ''X'', b_constructed) \<and>
   typeId abi_name Interface_a (Ptr 0 (MixinClass Impl_a Interface_a)) b_constructed =
     (Inr ''X'', b_constructed)"
  by (simp add: storage_defs call_defs example_defs)

subsection \<open>A registration and what keeps it\<close>

lemma intact_iff:
  "intact nm T I x s =
     (wf s \<and>
      (\<exists>a r. lookup s (registry_key nm I) = Some a \<and> deref s a = Some (RegistryCell r) \<and>
         map_find r x = Some (MixinNewInstance T I)) \<and>
      (\<exists>b. lookup s (typeid_key nm T I) = Some b \<and> deref s b = Some (TypeIdCell x)))"
  by (auto simp: intact_def split: option.splits cell.splits)

lemma intactI:
  assumes "wf s" "lookup s (registry_key nm I) = Some a" "deref s a = Some (RegistryCell r)"
    "map_find r x = Some (MixinNewInstance T I)" "lookup s (typeid_key nm T I) = Some b"
    "deref s b = Some (TypeIdCell x)"
  shows "intact nm T I x s"
  using assms unfolding intact_iff by blast

lemma intactE:
  assumes "intact nm T I x s"
  obtains a r b where "wf s" "lookup s (registry_key nm I) = Some a"
    "deref s a = Some (RegistryCell r)" "map_find r x = Some (MixinNewInstance T I)"
    "lookup s (typeid_key nm T I) = Some b" "deref s b = Some (TypeIdCell x)"
  using assms unfolding intact_iff by blast

lemma intact_step:
  assumes "intact nm T I x s" and k: "keeps nm ndebug T I x c"
  shows "intact nm T I x (snd (step nm ndebug c s))"
  using assms(1)
proof (rule step_preserves)
  fix s k d
  assume "intact nm T I x s"
  then obtain a r b where i: "wf s" "lookup s (registry_key nm I) = Some a"
    "deref s a = Some (RegistryCell r)" "map_find r x = Some (MixinNewInstance T I)"
    "lookup s (typeid_key nm T I) = Some b" "deref s b = Some (TypeIdCell x)"
    by (rule intactE)
  show "intact nm T I x (snd (value_key d k s))"
    using i by (intro intactI [of _ _ _ a r _ _ b])
      (simp_all add: wf_value_key lookup_value_key_mono deref_value_key_mono)
next
  fix s J y g a' r'
  assume "intact nm T I x s" and c: "registers c = Some (J, y, g)"
    and l: "lookup s (registry_key nm J) = Some a'" and r': "as_Registry s a' = Inr r'"
    and n: "ndebug \<or> map_count r' y = 0"
  then obtain a r b where i: "wf s" "lookup s (registry_key nm I) = Some a"
    "deref s a = Some (RegistryCell r)" "map_find r x = Some (MixinNewInstance T I)"
    "lookup s (typeid_key nm T I) = Some b" "deref s b = Some (TypeIdCell x)"
    by (auto elim: intactE)
  let ?s = "store a' (RegistryCell (map_assign r' y g)) s"
  from r' have d': "deref s a' = Some (RegistryCell r')" by (simp add: as_Registry_deref)
  with i(6) have "b \<noteq> a'" by auto
  with i(6) have db: "deref ?s b = Some (TypeIdCell x)" by (simp add: deref_store)
  have "\<exists>q. deref ?s a = Some (RegistryCell q) \<and> map_find q x = Some (MixinNewInstance T I)"
  proof (cases "a' = a")
    case True
    with d' i(3) have "r' = r" by simp
    from True l i(1,2) have same: "registry_key nm J = registry_key nm I"
      by (auto dest: wf_lookup_inj)
    have "map_find (map_assign r y g) x = Some (MixinNewInstance T I)"
    proof (cases "y = x")
      case y: True
      with i(4) \<open>r' = r\<close> n have ndebug by (simp add: map_count_find)
      with k c same y have "g = MixinNewInstance T I" by (simp add: keeps_def)
      with y show ?thesis by (simp add: map_find_assign)
    next
      case False
      with i(4) show ?thesis by (simp add: map_find_assign)
    qed
    moreover from True d' have "deref ?s a = Some (RegistryCell (map_assign r' y g))"
      by (auto simp: deref_store dest: deref_range)
    ultimately show ?thesis using \<open>r' = r\<close> by simp
  next
    case False
    with i(3,4) show ?thesis by (simp add: deref_store)
  qed
  then obtain q where "deref ?s a = Some (RegistryCell q)"
    "map_find q x = Some (MixinNewInstance T I)" by blast
  with i(1,2,5) db show "intact nm T I x ?s"
    by (intro intactI [of _ _ _ a q _ _ b]) simp_all
next
  fix s T' J y b' z
  assume "intact nm T I x s" and c: "c = MkRegistrator T' J y"
    and l: "lookup s (typeid_key nm T' J) = Some b'" and z: "as_TypeId s b' = Inr z"
  then obtain a r b where i: "wf s" "lookup s (registry_key nm I) = Some a"
    "deref s a = Some (RegistryCell r)" "map_find r x = Some (MixinNewInstance T I)"
    "lookup s (typeid_key nm T I) = Some b" "deref s b = Some (TypeIdCell x)"
    by (auto elim: intactE)
  let ?s = "store b' (TypeIdCell y) s"
  from z have d': "deref s b' = Some (TypeIdCell z)" by (simp add: as_TypeId_deref)
  with i(3) have "a \<noteq> b'" by auto
  with i(3) have da: "deref ?s a = Some (RegistryCell r)" by (simp add: deref_store)
  have "deref ?s b = Some (TypeIdCell x)"
  proof (cases "b' = b")
    case True
    with l i(1,5) have "typeid_key nm T' J = typeid_key nm T I" by (auto dest: wf_lookup_inj)
    with k c have "y = x" by (simp add: keeps_def)
    with True d' show ?thesis by (auto simp: deref_store dest: deref_range)
  next
    case False
    with i(6) show ?thesis by (simp add: deref_store)
  qed
  with i(1,2,4,5) da show "intact nm T I x ?s"
    by (intro intactI [of _ _ _ a r _ _ b]) simp_all
next
  fix s n
  assume "intact nm T I x s"
  then show "intact nm T I x (s\<lparr>objects := n\<rparr>)" by (simp add: intact_iff)
qed

lemma Registrator_intact:
  assumes "wf s" and ok: "fst (Registrator nm ndebug T I x s) = Inr ()"
  shows "intact nm T I x (snd (Registrator nm ndebug T I x s))"
proof -
  let ?g = "MixinNewInstance T I"
  obtain a s1 where R: "value_key (RegistryCell []) (registry_key nm I) s = (a, s1)"
    by (cases "value_key (RegistryCell []) (registry_key nm I) s")
  from assms(1) R have w1: "wf s1"
    using wf_value_key [of s "RegistryCell []" "registry_key nm I"] by simp
  from R have l1: "lookup s1 (registry_key nm I) = Some a" by (rule lookup_after_value_key)
  obtain r where r: "as_Registry s1 a = Inr r"
    using ok R by (cases "as_Registry s1 a")
      (auto simp: Registrator_def registerType_def registry_value_key)
  let ?s1 = "store a (RegistryCell (map_assign r x ?g)) s1"
  from ok R r have reg: "registerType nm ndebug I x ?g s = (Inr (), ?s1)"
    by (auto simp: Registrator_def registerType_def registry_value_key split: if_splits)
  from r have "a < length (heap s1)" by (auto simp: as_Registry_deref dest: deref_range)
  then have d1: "deref ?s1 a = Some (RegistryCell (map_assign r x ?g))"
    by (simp add: deref_store)
  obtain b s2 where V: "value_key (TypeIdCell []) (typeid_key nm T I) ?s1 = (b, s2)"
    by (cases "value_key (TypeIdCell []) (typeid_key nm T I) ?s1")
  from w1 V have w2: "wf s2"
    using wf_value_key [of ?s1 "TypeIdCell []" "typeid_key nm T I"] by simp
  from V have l2: "lookup s2 (typeid_key nm T I) = Some b" by (rule lookup_after_value_key)
  from V l1 have l2': "lookup s2 (registry_key nm I) = Some a"
    using lookup_value_key_mono [of ?s1 "registry_key nm I" a "TypeIdCell []" "typeid_key nm T I"]
    by simp
  from V d1 have d2: "deref s2 a = Some (RegistryCell (map_assign r x ?g))"
    using deref_value_key_mono [of ?s1 a _ "TypeIdCell []" "typeid_key nm T I"] by simp
  obtain z where z: "as_TypeId s2 b = Inr z"
    using ok reg V by (cases "as_TypeId s2 b") (auto simp: Registrator_def typeid_value_key)
  let ?s3 = "store b (TypeIdCell x) s2"
  from reg V z have fin: "snd (Registrator nm ndebug T I x s) = ?s3"
    by (simp add: Registrator_def typeid_value_key)
  from z have db: "deref s2 b = Some (TypeIdCell z)" by (simp add: as_TypeId_deref)
  with d2 have "a \<noteq> b" by auto
  with d2 have "deref ?s3 a = Some (RegistryCell (map_assign r x ?g))"
    by (simp add: deref_store)
  moreover from db have "deref ?s3 b = Some (TypeIdCell x)"
    by (auto simp: deref_store dest: deref_range)
  moreover have "map_find (map_assign r x ?g) x = Some ?g" by (simp add: map_find_assign)
  ultimately have "intact nm T I x ?s3"
    using w2 l2 l2' by (intro intactI [of _ _ _ a "map_assign r x ?g" _ _ b]) simp_all
  with fin show ?thesis by simp
qed

lemma intact_roundtrip:
  assumes "intact nm T I x s"
  shows "newInstance nm I x s =
           (Inr (Ptr (objects s) (MixinClass T I)), s\<lparr>objects := Suc (objects s)\<rparr>) \<and>
         typeId nm I (Ptr (objects s) (MixinClass T I)) (s\<lparr>objects := Suc (objects s)\<rparr>) =
           (Inr x, s\<lparr>objects := Suc (objects s)\<rparr>)"
proof -
  from assms obtain a r b where i: "wf s" "lookup s (registry_key nm I) = Some a"
    "deref s a = Some (RegistryCell r)" "map_find r x = Some (MixinNewInstance T I)"
    "lookup s (typeid_key nm T I) = Some b" "deref s b = Some (TypeIdCell x)"
    by (rule intactE)
  let ?s = "s\<lparr>objects := Suc (objects s)\<rparr>"
  from i(2,3,4) have "newInstance nm I x s = (Inr (Ptr (objects s) (MixinClass T I)), ?s)"
    by (simp add: newInstance_def registry_value_key value_key_old as_Registry_def)
  moreover from i(5,6) have "staticTypeId nm T I ?s = (Inr x, ?s)"
    by (simp add: staticTypeId_def typeid_value_key value_key_old as_TypeId_def)
  ultimately show ?thesis by (simp add: typeId_def)
qed

lemma wf_started: "wf started"
  unfolding started_def using wf_init by (rule wf_run)

text \<open>
  Claim C4 (round trip), as amended. Let the construction of the Registrator of \<open>T\<close> with the
  identifier \<open>x\<close> succeed, and let the program go on with calls among which no Registrator
  stores another identifier in the identifier cell of \<open>T\<close>, and none, in a build with
  \<^verbatim>\<open>NDEBUG\<close>, assigns another generator to \<open>x\<close> in the table of \<open>I\<close>. Then \<^verbatim>\<open>newInstance(x)\<close>
  returns an instance of \<open>T\<close>, and \<^verbatim>\<open>TypeIdGetter<I>::typeId\<close> of that instance is \<open>x\<close>.
\<close>

theorem roundtrip:
  assumes "wf s" and "fst (Registrator nm ndebug T I x s) = Inr ()"
    and "\<forall>c \<in> set cs. keeps nm ndebug T I x c"
  shows "\<exists>n s'. newInstance nm I x (run nm ndebug cs (snd (Registrator nm ndebug T I x s))) =
             (Inr (Ptr n (MixinClass T I)), s') \<and>
           typeId nm I (Ptr n (MixinClass T I)) s' = (Inr x, s')"
proof -
  let ?s = "run nm ndebug cs (snd (Registrator nm ndebug T I x s))"
  have "intact nm T I x ?s"
  proof (rule run_preserves)
    from assms(1,2) show "intact nm T I x (snd (Registrator nm ndebug T I x s))"
      by (rule Registrator_intact)
  next
    fix c s'
    assume "c \<in> set cs" and i: "intact nm T I x s'"
    with assms(3) have "keeps nm ndebug T I x c" by blast
    with i show "intact nm T I x (snd (step nm ndebug c s'))" by (rule intact_step)
  qed
  then show ?thesis using intact_roundtrip by blast
qed

theorem roundtrip_witness:
  "wf init \<and>
   fst (Registrator abi_name False class_A Interface ''A'' init) = Inr () \<and>
   keeps abi_name False class_A Interface ''A'' (MkRegistrator class_B Interface ''B'') \<and>
   keeps abi_name False class_A Interface ''A'' (NewInstance Interface ''B'') \<and>
   fst (newInstance abi_name Interface ''A''
     (run abi_name False [MkRegistrator class_B Interface ''B'', NewInstance Interface ''B'']
        (snd (Registrator abi_name False class_A Interface ''A'' init)))) =
     Inr (Ptr 1 (MixinClass class_A Interface)) \<and>
   fst (typeId abi_name Interface (Ptr 1 (MixinClass class_A Interface))
     (snd (newInstance abi_name Interface ''A''
       (run abi_name False [MkRegistrator class_B Interface ''B'', NewInstance Interface ''B'']
          (snd (Registrator abi_name False class_A Interface ''A'' init)))))) = Inr ''A''"
proof -
  let ?cs = "[MkRegistrator class_B Interface ''B'', NewInstance Interface ''B'']"
  let ?s = "run abi_name False ?cs (snd (Registrator abi_name False class_A Interface ''A'' init))"
  have ok: "fst (Registrator abi_name False class_A Interface ''A'' init) = Inr ()"
    by (simp add: storage_defs call_defs example_defs)
  have k: "\<forall>c \<in> set ?cs. keeps abi_name False class_A Interface ''A'' c"
    by (simp add: keeps_def storage_defs example_defs)
  have n: "fst (newInstance abi_name Interface ''A'' ?s) = Inr (Ptr 1 (MixinClass class_A Interface))"
    by (simp add: storage_defs call_defs example_defs)
  from roundtrip [OF wf_init ok k] obtain m s' where
    r: "newInstance abi_name Interface ''A'' ?s = (Inr (Ptr m (MixinClass class_A Interface)), s')"
      "typeId abi_name Interface (Ptr m (MixinClass class_A Interface)) s' = (Inr ''A'', s')"
    by blast
  from r(1) n have "m = 1" by simp
  with r have "fst (typeId abi_name Interface (Ptr 1 (MixinClass class_A Interface))
      (snd (newInstance abi_name Interface ''A'' ?s))) = Inr ''A''" by simp
  with wf_init ok k n show ?thesis by simp
qed

text \<open>
  The claim as it was stated, for every type registered under "X" through its Registrator,
  fails when the type is registered a second time under another identifier: there is one
  identifier cell for the type, and it holds the identifier of the last Registrator. Both
  registrations below succeed; \<^verbatim>\<open>newInstance("X")\<close> returns an instance of A whose identifier
  is "Y".
\<close>

theorem roundtrip_counterexample:
  "registered_twice =
     run abi_name False
       [MkRegistrator class_A Interface ''X'', MkRegistrator class_A Interface ''Y''] init \<and>
   fst (step abi_name False (MkRegistrator class_A Interface ''X'') init) = Inr Done \<and>
   fst (step abi_name False (MkRegistrator class_A Interface ''Y'')
     (snd (step abi_name False (MkRegistrator class_A Interface ''X'') init))) = Inr Done \<and>
   newInstance abi_name Interface ''X'' registered_twice =
     (Inr (Ptr 0 (MixinClass class_A Interface)), registered_twice\<lparr>objects := 1\<rparr>) \<and>
   typeId abi_name Interface (Ptr 0 (MixinClass class_A Interface))
     (registered_twice\<lparr>objects := 1\<rparr>) = (Inr ''Y'', registered_twice\<lparr>objects := 1\<rparr>)"
  by (simp add: storage_defs call_defs example_defs)

section \<open>One table for each interface\<close>

lemma registers_cell:
  "registers c = Some (J, y, g) \<Longrightarrow> (registry_key nm J, RegistryCell []) \<in> set (op_cells nm c)"
  by (cases c) auto

lemma table_value_key:
  assumes "wf s" and "k \<noteq> registry_key nm A"
  shows "table nm A (snd (value_key d k s)) = table nm A s"
proof (cases "lookup s (registry_key nm A)")
  case None
  with assms(2) show ?thesis by (simp add: table_eq lookup_value_key)
next
  case (Some a)
  with assms(1) have "a < length (heap s)" by (rule wf_lookup_range)
  then have "deref (snd (value_key d k s)) a = deref s a" by (simp add: deref_value_key)
  with Some assms(2) show ?thesis by (simp add: table_eq lookup_value_key as_Registry_def)
qed

lemma table_store:
  assumes "lookup s (registry_key nm A) \<noteq> Some a"
  shows "table nm A (store a c s) = table nm A s"
  using assms by (auto simp: table_eq as_Registry_def deref_store split: option.splits)

lemma table_objects [simp]: "table nm A (s\<lparr>objects := n\<rparr>) = table nm A s"
  by (simp add: table_eq as_Registry_def split: option.splits)

lemma table_step:
  assumes "wf s \<and> table nm A s = t" and "registry_key nm A \<notin> fst ` set (op_cells nm c)"
  shows "wf (snd (step nm ndebug c s)) \<and> table nm A (snd (step nm ndebug c s)) = t"
  using assms(1)
proof (rule step_preserves)
  fix s k d
  assume "wf s \<and> table nm A s = t" "(k, d) \<in> set (op_cells nm c)"
  with assms(2) have "wf s" "table nm A s = t" "k \<noteq> registry_key nm A" by force+
  then show "wf (snd (value_key d k s)) \<and> table nm A (snd (value_key d k s)) = t"
    by (simp add: wf_value_key table_value_key)
next
  fix s J y g a r
  assume p: "wf s \<and> table nm A s = t" and "registers c = Some (J, y, g)"
    and l: "lookup s (registry_key nm J) = Some a"
  then have "(registry_key nm J, RegistryCell []) \<in> set (op_cells nm c)"
    by (simp add: registers_cell)
  with assms(2) have "registry_key nm J \<noteq> registry_key nm A" by force
  with p l have "lookup s (registry_key nm A) \<noteq> Some a" by (auto dest: wf_lookup_inj)
  with p show "wf (store a (RegistryCell (map_assign r y g)) s) \<and>
      table nm A (store a (RegistryCell (map_assign r y g)) s) = t"
    by (simp add: table_store)
next
  fix s T J y a z
  assume p: "wf s \<and> table nm A s = t" and "c = MkRegistrator T J y"
    and l: "lookup s (typeid_key nm T J) = Some a"
  with assms(2) have "typeid_key nm T J \<noteq> registry_key nm A" by force
  with p l have "lookup s (registry_key nm A) \<noteq> Some a" by (auto dest: wf_lookup_inj)
  with p show "wf (store a (TypeIdCell y) s) \<and> table nm A (store a (TypeIdCell y) s) = t"
    by (simp add: table_store)
next
  fix s n
  assume "wf s \<and> table nm A s = t"
  then show "wf (s\<lparr>objects := n\<rparr>) \<and> table nm A (s\<lparr>objects := n\<rparr>) = t"
    by simp
qed

lemma same_prefix:
  "xs @ x # ys = xs' @ x # ys' \<Longrightarrow> x \<notin> set xs \<Longrightarrow> x \<notin> set xs' \<Longrightarrow> xs = xs'"
proof (induction xs arbitrary: xs')
  case Nil
  then show ?case by (cases xs') auto
next
  case (Cons a xs)
  then show ?case by (cases xs') auto
qed

lemma storage_key_differs:
  assumes "nm C \<noteq> nm C'" and "CHR ''/'' \<notin> set (nm C)" and "CHR ''/'' \<notin> set (nm C')"
  shows "storage_key nm C V \<noteq> storage_key nm C' V'"
proof
  assume "storage_key nm C V = storage_key nm C' V'"
  then have "(nm C @ '' '') @ CHR ''/'' # ('' '' @ nm V) =
      (nm C' @ '' '') @ CHR ''/'' # ('' '' @ nm V')"
    by (simp add: storage_key_def)
  moreover from assms(2,3) have "CHR ''/'' \<notin> set (nm C @ '' '')"
    "CHR ''/'' \<notin> set (nm C' @ '' '')" by simp_all
  ultimately have "nm C @ '' '' = nm C' @ '' ''"
    by (rule same_prefix)
  with assms(1) show False by simp
qed

lemma separate_cells:
  assumes "registry_key nm A \<noteq> registry_key nm B" and "wf s"
  shows "fst (registry nm A s) \<noteq> fst (registry nm B (snd (registry nm A s)))"
proof -
  obtain a s1 where A: "value_key (RegistryCell []) (registry_key nm A) s = (a, s1)"
    by (cases "value_key (RegistryCell []) (registry_key nm A) s")
  obtain b s2 where B: "value_key (RegistryCell []) (registry_key nm B) s1 = (b, s2)"
    by (cases "value_key (RegistryCell []) (registry_key nm B) s1")
  from A have la: "lookup s1 (registry_key nm A) = Some a" by (rule lookup_after_value_key)
  then have la2: "lookup s2 (registry_key nm A) = Some a"
    using B lookup_value_key_mono [of s1 "registry_key nm A" a "RegistryCell []" "registry_key nm B"]
    by simp
  from B have lb: "lookup s2 (registry_key nm B) = Some b" by (rule lookup_after_value_key)
  from assms(2) A have "wf s1" using wf_value_key [of s "RegistryCell []" "registry_key nm A"] by simp
  with B have "wf s2" using wf_value_key [of s1 "RegistryCell []" "registry_key nm B"] by simp
  with la2 lb assms(1) have "a \<noteq> b" by (auto dest: wf_lookup_inj)
  with A B show ?thesis by (simp add: registry_value_key)
qed

text \<open>
  Claim C5 (isolation), as amended. Let the keys of the tables of \<open>A\<close> and \<open>B\<close> differ. Then the
  two tables are different cells. Calls that do not address the key of the table of \<open>A\<close>, as
  all registrations and creations for \<open>B\<close> are, leave the table of \<open>A\<close> as it was: afterwards
  \<^verbatim>\<open>newInstance\<close> on \<open>A\<close> fails for the identifiers that were absent from the table of \<open>A\<close>,
  and for the others it calls the generator that the table of \<open>A\<close> held, never one registered
  for \<open>B\<close>. The same holds with \<open>A\<close> and \<open>B\<close> exchanged.
\<close>

theorem registries_isolated:
  assumes "registry_key nm A \<noteq> registry_key nm B" and "wf s" and "table nm A s = Inr r"
    and "\<forall>c \<in> set cs. registry_key nm A \<notin> fst ` set (op_cells nm c)"
  shows "fst (registry nm A (run nm ndebug cs s)) \<noteq>
           fst (registry nm B (snd (registry nm A (run nm ndebug cs s)))) \<and>
         table nm A (run nm ndebug cs s) = Inr r \<and>
         (\<forall>y. map_find r y = None \<longrightarrow>
            fst (newInstance nm A y (run nm ndebug cs s)) = Inl (not_found y)) \<and>
         (\<forall>y g. map_find r y = Some g \<longrightarrow>
            newInstance nm A y (run nm ndebug cs s) =
              invoke g (snd (registry nm A (run nm ndebug cs s))))"
proof -
  let ?s = "run nm ndebug cs s"
  have "wf ?s \<and> table nm A ?s = Inr r"
  proof (rule run_preserves)
    show "wf s \<and> table nm A s = Inr r" using assms(2,3) by simp
  next
    fix c s'
    assume "c \<in> set cs" and p: "wf s' \<and> table nm A s' = Inr r"
    with assms(4) have "registry_key nm A \<notin> fst ` set (op_cells nm c)" by blast
    with p show "wf (snd (step nm ndebug c s')) \<and>
        table nm A (snd (step nm ndebug c s')) = Inr r"
      by (rule table_step)
  qed
  then have w: "wf ?s" and t: "table nm A ?s = Inr r" by simp_all
  from assms(1) w have sep:
    "fst (registry nm A ?s) \<noteq> fst (registry nm B (snd (registry nm A ?s)))"
    by (rule separate_cells)
  from t obtain a s1 where "registry nm A ?s = (a, s1)" "as_Registry s1 a = Inr r"
    by (rule table_registry)
  then have "(\<forall>y. map_find r y = None \<longrightarrow>
        fst (newInstance nm A y ?s) = Inl (not_found y)) \<and>
      (\<forall>y g. map_find r y = Some g \<longrightarrow>
        newInstance nm A y ?s = invoke g (snd (registry nm A ?s)))"
    by (simp add: newInstance_def)
  with sep t show ?thesis by simp
qed

theorem registries_isolated_witness:
  "registry_key abi_name Interface \<noteq> registry_key abi_name Shape \<and>
   wf started \<and>
   registry_key abi_name Interface \<notin>
     fst ` set (op_cells abi_name (RegisterType Shape ''A'' EmptyFunction)) \<and>
   registry_key abi_name Interface \<notin> fst ` set (op_cells abi_name (NewInstance Shape ''A'')) \<and>
   table abi_name Interface
     (run abi_name True [RegisterType Shape ''A'' EmptyFunction, NewInstance Shape ''A''] started) =
     Inr [(''A'', MixinNewInstance class_A Interface), (''B'', MixinNewInstance class_B Interface)] \<and>
   fst (newInstance abi_name Interface ''A''
     (run abi_name True [RegisterType Shape ''A'' EmptyFunction, NewInstance Shape ''A''] started)) =
     Inr (Ptr 0 (MixinClass class_A Interface)) \<and>
   fst (newInstance abi_name Shape ''A''
     (run abi_name True [RegisterType Shape ''A'' EmptyFunction, NewInstance Shape ''A''] started)) =
     Inl BadFunctionCall"
proof -
  let ?cs = "[RegisterType Shape ''A'' EmptyFunction, NewInstance Shape ''A'']"
  let ?s = "run abi_name True ?cs started"
  have d: "registry_key abi_name Interface \<noteq> registry_key abi_name Shape"
    by (simp add: storage_defs example_defs)
  have o: "\<forall>c \<in> set ?cs. registry_key abi_name Interface \<notin> fst ` set (op_cells abi_name c)"
    by (simp add: storage_defs example_defs)
  have a: "map_find [(''A'', MixinNewInstance class_A Interface),
      (''B'', MixinNewInstance class_B Interface)] ''A'' = Some (MixinNewInstance class_A Interface)"
    by simp
  have obj: "objects (snd (registry abi_name Interface ?s)) = 0"
    by (simp add: storage_defs call_defs example_defs)
  have sh: "fst (newInstance abi_name Shape ''A'' ?s) = Inl BadFunctionCall"
    by (simp add: storage_defs call_defs example_defs)
  from registries_isolated [OF d wf_started started_table o, of True]
  have t: "table abi_name Interface ?s =
      Inr [(''A'', MixinNewInstance class_A Interface), (''B'', MixinNewInstance class_B Interface)]"
    and n: "newInstance abi_name Interface ''A'' ?s =
      invoke (MixinNewInstance class_A Interface) (snd (registry abi_name Interface ?s))"
    using a by blast+
  from n obj have "fst (newInstance abi_name Interface ''A'' ?s) =
      Inr (Ptr 0 (MixinClass class_A Interface))" by simp
  with d wf_started o t sh show ?thesis by simp
qed

text \<open>
  The claim as it was stated, for every two distinct interface types, fails for two types with
  the same type name: the key of a table is built from type names alone. \<open>Interface_a\<close> and
  \<open>Interface_b\<close> are distinct classes, each local to its translation unit, and have one table.
  After "X" has been registered for \<open>Interface_b\<close> only, \<^verbatim>\<open>newInstance("X")\<close> on
  \<open>Interface_a\<close> returns the instance made by the generator of \<open>Interface_b\<close>, and the
  registration of "X" for \<open>Interface_a\<close> fails its assertion.
\<close>

theorem registries_isolated_counterexample:
  "Interface_a \<noteq> Interface_b \<and>
   registry_key abi_name Interface_a = registry_key abi_name Interface_b \<and>
   fst (registerType abi_name False Interface_b ''X'' (MixinNewInstance Impl_b Interface_b) init) =
     Inr () \<and>
   fst (registry abi_name Interface_a
     (snd (registerType abi_name False Interface_b ''X'' (MixinNewInstance Impl_b Interface_b) init))) =
     fst (registry abi_name Interface_b
       (snd (registerType abi_name False Interface_b ''X'' (MixinNewInstance Impl_b Interface_b) init))) \<and>
   fst (newInstance abi_name Interface_a ''X''
     (snd (registerType abi_name False Interface_b ''X'' (MixinNewInstance Impl_b Interface_b) init))) =
     Inr (Ptr 0 (MixinClass Impl_b Interface_b)) \<and>
   fst (registerType abi_name False Interface_a ''X'' (MixinNewInstance Impl_a Interface_a)
     (snd (registerType abi_name False Interface_b ''X'' (MixinNewInstance Impl_b Interface_b) init))) =
     Inl AssertionFailed"
  by (simp add: storage_defs call_defs example_defs)

end
